theory Spec2Isabelle
  imports
    Main
    "HOL-Library.AList"
    "HOL-Library.Char_ord"
    "HOL-Library.List_Lexorder"
    "HOL-Library.Sublist"
begin

section \<open>JavaScript values used by the content tracker\<close>

text \<open>
  Strings are lists of characters; a \<^typ>\<open>char\<close> stands for one code unit below 256.
  With \<open>Char_ord\<close> and \<open>List_Lexorder\<close> the order on \<^typ>\<open>string\<close> is the
  code-unit-wise lexicographic order that \<open>Array.prototype.sort()\<close> uses when no
  comparator is given.

  A plain object with string keys is an association list in insertion order:
  \<open>o[k] = v\<close> replaces the value of an existing key in place and appends a new key
  (\<^const>\<open>AList.update\<close>), \<open>delete o[k]\<close> removes it (\<^const>\<open>AList.delete\<close>),
  \<open>Object.keys(o)\<close> lists the keys in insertion order.
\<close>

type_synonym 'v js_object = "(string \<times> 'v) list"

definition Object_keys :: "'v js_object \<Rightarrow> string list" where
  "Object_keys obj = map fst obj"

definition js_in :: "string \<Rightarrow> 'v js_object \<Rightarrow> bool" where
  \<comment> \<open>\<open>k in obj\<close>, for the keys this program uses (every key is the output of
      \<open>JSON.stringify\<close>, so none is a property of \<open>Object.prototype\<close>)\<close>
  "js_in k obj = (k \<in> set (Object_keys obj))"

datatype js_error =
    UnsupportedFileTypeError string
  | AstroError string
  | TypeError string
  | OtherError string

text \<open>A thrown value is an \<open>Error\<close> object or any other value.\<close>

datatype thrown = ThrowError js_error | ThrowValue string

datatype js_value = JsUndefined | JsString string | JsOther string

subsection \<open>\<open>JSON.stringify\<close> on strings\<close>

definition hex_digit :: "nat \<Rightarrow> char" where
  "hex_digit n = ''0123456789abcdef'' ! (n mod 16)"

definition quote_char :: "char \<Rightarrow> string" where
  "quote_char c =
     (if c = CHR 0x08 then [CHR 0x5C, CHR ''b'']
      else if c = CHR 0x09 then [CHR 0x5C, CHR ''t'']
      else if c = CHR 0x0A then [CHR 0x5C, CHR ''n'']
      else if c = CHR 0x0C then [CHR 0x5C, CHR ''f'']
      else if c = CHR 0x0D then [CHR 0x5C, CHR ''r'']
      else if c = CHR 0x22 then [CHR 0x5C, CHR 0x22]
      else if c = CHR 0x5C then [CHR 0x5C, CHR 0x5C]
      else if (of_char c :: nat) < 32
        then [CHR 0x5C, CHR ''u'', CHR ''0'', CHR ''0'',
              hex_digit (of_char c div 16), hex_digit (of_char c)]
      else [c])"

definition JSON_stringify :: "string \<Rightarrow> string" where
  "JSON_stringify s = [CHR 0x22] @ concat (map quote_char s) @ [CHR 0x22]"

subsection \<open>\<open>String.prototype.split\<close> with a one-character separator\<close>

fun js_split :: "char \<Rightarrow> string \<Rightarrow> string list" where
  "js_split sep [] = [[]]"
| "js_split sep (c # cs) =
     (if c = sep then [] # js_split sep cs
      else (case js_split sep cs of
              [] \<Rightarrow> [[c]]
            | seg # segs \<Rightarrow> (c # seg) # segs))"

section \<open>The content types generator (\<open>createContentTypesGenerator\<close>)\<close>

datatype ChokidarEvent = Add | AddDir | Change | Unlink | UnlinkDir

record ContentEvent =
  name :: ChokidarEvent
  entry :: string

datatype EntryMetadata = ContentEntryMetadata (slug: string) | DataEntryMetadata

type_synonym CollectionTypes = "EntryMetadata js_object js_object"

datatype log_level = LevelInfo | LevelWarn

record EventOpts =
  logLevel :: log_level

record EventWithOptions =
  type :: ContentEvent
  opts :: "EventOpts option"

record response =
  shouldGenerateTypes :: bool
  error :: "js_error option"

text \<open>
  The content config, as far as this file reads it: the configured collection names in
  declaration order, each with the truthiness of its \<open>schema\<close>.
\<close>

record ContentConfig =
  collections :: "bool js_object"

datatype ContentObservable =
    Init
  | Loading
  | Loaded ContentConfig
  | DoesNotExist
  | ErrorStatus js_error

datatype entry_type = Content | Data | Config | Unsupported | Ignored

datatype log_message =
    CollectionAdded string
  | MustBeNested string
  | UnsupportedFileTypes "string list"
  | NotACollection string

text \<open>
  What the generator does to the outside world, in the order it does it.
  \<open>MkdirCacheDir\<close> and \<open>WriteFile\<close> stand for the calls of \<open>fs.mkdirSync\<close> and
  of \<open>fs.promises.writeFile\<close> with the given text, whether or not the call fails.
\<close>

datatype effect =
    LogInfo log_message
  | LogWarn log_message
  | ConsoleLog "ContentConfig option"
  | ObserverSet ContentObservable
  | LoadContentConfig
  | MkdirCacheDir
  | WriteFile string

text \<open>
  The closure state of \<open>createContentTypesGenerator\<close>: \<open>collectionTypes\<close>, the queue
  \<open>events\<close>, the value held by \<open>contentConfigObserver\<close>, whether the cache directory
  exists, and the trace of effects so far.
\<close>

record generator =
  collectionTypes :: CollectionTypes
  contentConfigObserver :: ContentObservable
  events :: "EventWithOptions list"
  cacheDirExists :: bool
  effects :: "effect list"

text \<open>
  Everything the generator calls that is not in these source files: the helpers of
  \<open>utils.js\<close> and \<open>core/path.js\<close>, the file system, the config loader, and the
  built-ins \<open>JSON.parse\<close> and \<open>path.extname\<close>. A path (or file URL) is a string.
  A world is a snapshot of the file system and of the configuration: it is the same for
  all events of one batch. The debounce timer of \<open>queueEvent\<close> and the directory
  scan of \<open>init\<close> only fill the queue and are not part of the model.
\<close>

record world =
  relativeToContentDir :: "string \<Rightarrow> string"
    \<comment> \<open>\<open>normalizePath(path.relative(fileURLToPath(contentDir), fileURLToPath(entry)))\<close>\<close>
  getEntryType :: "string \<Rightarrow> entry_type"
  getEntryCollectionName :: "string \<Rightarrow> string option"
  getDataEntryId :: "string \<Rightarrow> string \<Rightarrow> string"
    \<comment> \<open>entry, collection\<close>
  getContentEntryIdAndSlug :: "string \<Rightarrow> string \<Rightarrow> string \<times> string"
    \<comment> \<open>entry, collection; returns id and slug\<close>
  readFile :: "string \<Rightarrow> thrown + string"
  parseFrontmatter :: "string \<Rightarrow> string \<Rightarrow> thrown + js_value"
    \<comment> \<open>file contents, path; returns \<open>data.slug\<close>\<close>
  getEntrySlug :: "string \<Rightarrow> string \<Rightarrow> string \<Rightarrow> js_value \<Rightarrow> thrown + string"
    \<comment> \<open>id, slug, collection, unvalidatedSlug\<close>
  loadContentConfig :: "thrown + ContentConfig option"
  mkdirSync :: "thrown option"
    \<comment> \<open>what creating the cache directory throws, if anything\<close>
  writeFile :: "string \<Rightarrow> thrown option"
    \<comment> \<open>what writing this text to the manifest file throws, if anything\<close>
  JSON_parse :: "string \<Rightarrow> thrown + js_value"
  path_extname :: "string \<Rightarrow> string"
  configPathFromCacheDir :: string
    \<comment> \<open>\<open>normalizePath(path.relative(cacheDir.pathname, config.url.pathname))\<close>\<close>
  isRelativePath :: "string \<Rightarrow> bool"
  typeTemplateContent :: string
  contentEntryTypes :: "string option list"
    \<comment> \<open>the \<open>contentModuleTypes\<close> of each content entry type\<close>

definition emit :: "effect \<Rightarrow> generator \<Rightarrow> generator" where
  "emit e st = st\<lparr>effects := effects st @ [e]\<rparr>"

definition observer_set :: "ContentObservable \<Rightarrow> generator \<Rightarrow> generator" where
  \<comment> \<open>\<open>contentConfigObserver.set(v)\<close>\<close>
  "observer_set v st = emit (ObserverSet v) (st\<lparr>contentConfigObserver := v\<rparr>)"

definition addCollection :: "CollectionTypes \<Rightarrow> string \<Rightarrow> CollectionTypes" where
  "addCollection contentMap collectionKey = AList.update collectionKey [] contentMap"

definition removeCollection :: "CollectionTypes \<Rightarrow> string \<Rightarrow> CollectionTypes" where
  "removeCollection contentMap collectionKey = AList.delete collectionKey contentMap"

definition setEntry ::
  "CollectionTypes \<Rightarrow> string \<Rightarrow> string \<Rightarrow> EntryMetadata \<Rightarrow> thrown + CollectionTypes" where
  "setEntry contentTypes collectionKey entryKey metadata =
     (case map_of contentTypes collectionKey of
        None \<Rightarrow> Inl (ThrowError (TypeError ''Cannot set properties of undefined''))
      | Some es \<Rightarrow>
          Inr (AList.update collectionKey (AList.update entryKey metadata es) contentTypes))"

definition removeEntry :: "CollectionTypes \<Rightarrow> string \<Rightarrow> string \<Rightarrow> thrown + CollectionTypes" where
  "removeEntry contentTypes collectionKey entryKey =
     (case map_of contentTypes collectionKey of
        None \<Rightarrow> Inl (ThrowError (TypeError ''Cannot convert undefined or null to object''))
      | Some es \<Rightarrow>
          Inr (AList.update collectionKey (AList.delete entryKey es) contentTypes))"

definition parseSlug ::
  "world \<Rightarrow> ContentEvent \<Rightarrow> string \<Rightarrow> string \<Rightarrow> string \<Rightarrow> thrown + string" where
  "parseSlug w event id0 slug0 collection =
     (case readFile w (entry event) of
        Inl e \<Rightarrow> Inl e
      | Inr rawContents \<Rightarrow>
          (case parseFrontmatter w rawContents (entry event) of
             Inl e \<Rightarrow> Inl e
           | Inr frontmatter_slug \<Rightarrow> getEntrySlug w id0 slug0 collection frontmatter_slug))"

definition reply :: "generator \<Rightarrow> bool \<Rightarrow> thrown + generator \<times> response" where
  \<comment> \<open>\<open>return { shouldGenerateTypes: b }\<close>\<close>
  "reply st b = Inr (st, \<lparr>shouldGenerateTypes = b, error = None\<rparr>)"

text \<open>
  The part of the two \<open>add\<close> cases that both share: create the collection when its key
  is absent, then store the metadata when the entry key is absent.
\<close>

definition addEntryIfAbsent ::
  "generator \<Rightarrow> string \<Rightarrow> string \<Rightarrow> EntryMetadata \<Rightarrow> thrown + generator \<times> response" where
  "addEntryIfAbsent st collectionKey entryKey metadata =
     (let m1 = (if \<not> js_in collectionKey (collectionTypes st)
                then addCollection (collectionTypes st) collectionKey
                else collectionTypes st)
      in case map_of m1 collectionKey of
           None \<Rightarrow> Inl (ThrowError (TypeError ''Cannot use in operator on undefined''))
         | Some es \<Rightarrow>
             if \<not> js_in entryKey es
             then (case setEntry m1 collectionKey entryKey metadata of
                     Inl e \<Rightarrow> Inl e
                   | Inr m2 \<Rightarrow> reply (st\<lparr>collectionTypes := m2\<rparr>) True)
             else reply (st\<lparr>collectionTypes := m1\<rparr>) True)"

text \<open>The \<open>unlink\<close> case of both switches.\<close>

definition unlinkEntry ::
  "generator \<Rightarrow> string \<Rightarrow> string \<Rightarrow> thrown + generator \<times> response" where
  "unlinkEntry st collectionKey entryKey =
     (if js_in collectionKey (collectionTypes st)
         \<and> (case map_of (collectionTypes st) collectionKey of
               None \<Rightarrow> False | Some es \<Rightarrow> js_in entryKey es)
      then (case removeEntry (collectionTypes st) collectionKey entryKey of
              Inl e \<Rightarrow> Inl e
            | Inr m2 \<Rightarrow> reply (st\<lparr>collectionTypes := m2\<rparr>) True)
      else reply st True)"

text \<open>
  After either switch no \<open>case\<close> is left for a directory event; those have returned
  before. JavaScript would fall off the end and return \<open>undefined\<close>, and reading
  \<open>response.error\<close> in \<open>runEvents\<close> would throw.
\<close>

definition fallOffEnd :: "thrown + generator \<times> response" where
  "fallOffEnd = Inl (ThrowError (TypeError ''Cannot read properties of undefined''))"

definition handleContentEntry ::
  "world \<Rightarrow> generator \<Rightarrow> ContentEvent \<Rightarrow> string \<Rightarrow> thrown + generator \<times> response" where
  "handleContentEntry w st event collection =
     (let (id0, slug0) = getContentEntryIdAndSlug w (entry event) collection;
          collectionKey = JSON_stringify collection;
          entryKey = JSON_stringify id0
      in case name event of
           Add \<Rightarrow>
             (case parseSlug w event id0 slug0 collection of
                Inl e \<Rightarrow> Inl e
              | Inr addedSlug \<Rightarrow>
                  addEntryIfAbsent st collectionKey entryKey (ContentEntryMetadata addedSlug))
         | Unlink \<Rightarrow> unlinkEntry st collectionKey entryKey
         | Change \<Rightarrow>
             (case parseSlug w event id0 slug0 collection of
                Inl e \<Rightarrow> Inl e
              | Inr changedSlug \<Rightarrow>
                  (case (case map_of (collectionTypes st) collectionKey of
                           None \<Rightarrow> None | Some es \<Rightarrow> map_of es entryKey) of
                     Some (ContentEntryMetadata storedSlug) \<Rightarrow>
                       if storedSlug \<noteq> changedSlug
                       then (case setEntry (collectionTypes st) collectionKey entryKey
                                     (ContentEntryMetadata changedSlug) of
                               Inl e \<Rightarrow> Inl e
                             | Inr m2 \<Rightarrow> reply (st\<lparr>collectionTypes := m2\<rparr>) True)
                       else reply st False
                   | _ \<Rightarrow> reply st False))
         | _ \<Rightarrow> fallOffEnd)"

definition handleDataEntry ::
  "world \<Rightarrow> generator \<Rightarrow> ContentEvent \<Rightarrow> string \<Rightarrow> thrown + generator \<times> response" where
  "handleDataEntry w st event collection =
     (let id0 = getDataEntryId w (entry event) collection;
          collectionKey = JSON_stringify collection;
          entryKey = JSON_stringify id0
      in case name event of
           Add \<Rightarrow> addEntryIfAbsent st collectionKey entryKey DataEntryMetadata
         | Unlink \<Rightarrow> unlinkEntry st collectionKey entryKey
         | Change \<Rightarrow> reply st False
         | _ \<Rightarrow> handleContentEntry w st event collection)"

definition handleConfig :: "world \<Rightarrow> generator \<Rightarrow> thrown + generator \<times> response" where
  "handleConfig w st =
     (let st1 = emit LoadContentConfig (observer_set Loading st)
      in case loadContentConfig w of
           Inr config \<Rightarrow>
             (let st2 = emit (ConsoleLog config) st1
              in case config of
                   Some c \<Rightarrow> reply (observer_set (Loaded c) st2) True
                 | None \<Rightarrow> reply (observer_set DoesNotExist st2) True)
         | Inl e \<Rightarrow>
             reply (observer_set
                      (ErrorStatus (case e of
                                      ThrowError err \<Rightarrow> err
                                    | ThrowValue _ \<Rightarrow> AstroError ''UnknownContentCollectionError''))
                      st1) True)"

definition handleEvent ::
  "world \<Rightarrow> generator \<Rightarrow> ContentEvent \<Rightarrow> EventOpts option \<Rightarrow> thrown + generator \<times> response" where
  "handleEvent w st event opts0 =
     (let level = (case opts0 of None \<Rightarrow> LevelInfo | Some eo \<Rightarrow> logLevel eo)
      in if name event = AddDir \<or> name event = UnlinkDir then
           (let collection = relativeToContentDir w (entry event);
                isCollectionEvent = (length (js_split CHR ''/'' collection) = 1)
            in if \<not> isCollectionEvent then reply st False
               else (case name event of
                       AddDir \<Rightarrow>
                         (let st1 = st\<lparr>collectionTypes :=
                                         addCollection (collectionTypes st) (JSON_stringify collection)\<rparr>
                          in reply (if level = LevelInfo
                                    then emit (LogInfo (CollectionAdded collection)) st1
                                    else st1) True)
                     | UnlinkDir \<Rightarrow>
                         reply (st\<lparr>collectionTypes :=
                                      removeCollection (collectionTypes st) (JSON_stringify collection)\<rparr>)
                               True
                     | _ \<Rightarrow> reply st True))
         else
           (let fileType = getEntryType w (entry event)
            in if fileType = Ignored then reply st False
               else if fileType = Config then handleConfig w st
               else if fileType = Unsupported then
                 (if name event = Unlink then reply st False
                  else (let (id0, slug0) = getContentEntryIdAndSlug w (entry event) []
                        in Inr (st, \<lparr>shouldGenerateTypes = False,
                                      error = Some (UnsupportedFileTypeError id0)\<rparr>)))
               else (case getEntryCollectionName w (entry event) of
                       None \<Rightarrow>
                         reply (if level \<in> set [LevelInfo, LevelWarn]
                                then emit (LogWarn (MustBeNested
                                              (relativeToContentDir w (entry event)))) st
                                else st) False
                     | Some collection \<Rightarrow>
                         if fileType = Data then handleDataEntry w st event collection
                         else handleContentEntry w st event collection)))"

subsection \<open>\<open>String.prototype.includes\<close> and \<open>replace\<close> with a string pattern\<close>

text \<open>
  \<open>find_first pat s\<close> splits \<open>s\<close> around the first occurrence of \<open>pat\<close>.
  \<open>getSubstitution\<close> expands the replacement text as \<open>replace\<close> does for a string
  pattern (no capture groups): \<open>$$\<close> gives a dollar, \<open>$&\<close> the matched text,
  \<open>$`\<close> the text before the match and \<open>$'\<close> the text after it; every other
  character, also a dollar before a digit, stands for itself.
\<close>

fun find_first :: "string \<Rightarrow> string \<Rightarrow> (string \<times> string) option" where
  "find_first pat [] = (if pat = [] then Some ([], []) else None)"
| "find_first pat (c # cs) =
     (if prefix pat (c # cs) then Some ([], drop (length pat) (c # cs))
      else (case find_first pat cs of
              None \<Rightarrow> None
            | Some (pre, post) \<Rightarrow> Some (c # pre, post)))"

definition js_includes :: "string \<Rightarrow> string \<Rightarrow> bool" where
  "js_includes s pat = (find_first pat s \<noteq> None)"

fun getSubstitution :: "string \<Rightarrow> string \<Rightarrow> string \<Rightarrow> string \<Rightarrow> string" where
  "getSubstitution matched pre post (c1 # c2 # rest) =
     (if c1 = CHR ''$'' \<and> c2 = CHR ''$'' then CHR ''$'' # getSubstitution matched pre post rest
      else if c1 = CHR ''$'' \<and> c2 = CHR ''&'' then matched @ getSubstitution matched pre post rest
      else if c1 = CHR ''$'' \<and> c2 = CHR 0x60 then pre @ getSubstitution matched pre post rest
      else if c1 = CHR ''$'' \<and> c2 = CHR 0x27 then post @ getSubstitution matched pre post rest
      else c1 # getSubstitution matched pre post (c2 # rest))"
| "getSubstitution matched pre post rest = rest"

definition js_replace :: "string \<Rightarrow> string \<Rightarrow> string \<Rightarrow> string" where
  "js_replace s pat replacement =
     (case find_first pat s of
        None \<Rightarrow> s
      | Some (pre, post) \<Rightarrow> pre @ getSubstitution pat pre post replacement @ post)"

subsection \<open>\<open>writeContentFiles\<close>\<close>

definition property_key :: "js_value \<Rightarrow> string" where
  \<comment> \<open>the property key a value is converted to in \<open>obj[v]\<close>\<close>
  "property_key v = (case v of JsUndefined \<Rightarrow> ''undefined'' | JsString s \<Rightarrow> s | JsOther s \<Rightarrow> s)"

definition dataTypeOf :: "bool option \<Rightarrow> string \<Rightarrow> string" where
  \<comment> \<open>\<open>collectionConfig?.schema ? `InferEntrySchema<${collectionKey}>` : 'any'\<close>\<close>
  "dataTypeOf collectionConfig collectionKey =
     (if collectionConfig = Some True then ''InferEntrySchema<'' @ collectionKey @ ''>''
      else ''any'')"

definition entryStr ::
  "world \<Rightarrow> string \<Rightarrow> bool option \<Rightarrow> string \<Rightarrow> EntryMetadata \<Rightarrow> thrown + string" where
  "entryStr w collectionKey collectionConfig entryKey entryMetadata =
     (let dataType = dataTypeOf collectionConfig collectionKey
      in case entryMetadata of
           DataEntryMetadata \<Rightarrow>
             Inr (entryKey @ '': {'' @ [CHR 0x0A, CHR 0x09] @ ''type: '' @ [CHR 0x27] @ ''data''
                  @ [CHR 0x27] @ '','' @ [CHR 0x0A, CHR 0x09] @ ''id: '' @ entryKey @ '',''
                  @ [CHR 0x0A, CHR 0x09] @ ''collection: '' @ collectionKey @ '',''
                  @ [CHR 0x0A, CHR 0x09] @ ''data: '' @ dataType @ [CHR 0x0A] @ ''},'' @ [CHR 0x0A])
         | ContentEntryMetadata slug0 \<Rightarrow>
             (case JSON_parse w entryKey of
                Inl e \<Rightarrow> Inl e
              | Inr (JsString id0) \<Rightarrow>
                  (let renderType = ''{ render(): Render['' @ JSON_stringify (path_extname w id0)
                                    @ ''] }'';
                       slugType = JSON_stringify slug0
                   in Inr (entryKey @ '': {'' @ [CHR 0x0A] @ ''  type: '' @ [CHR 0x27] @ ''content''
                           @ [CHR 0x27] @ '','' @ [CHR 0x0A, CHR 0x09] @ ''id: '' @ entryKey @ '',''
                           @ [CHR 0x0A] @ ''  slug: '' @ slugType @ '','' @ [CHR 0x0A]
                           @ ''  body: string,'' @ [CHR 0x0A] @ ''  collection: '' @ collectionKey
                           @ '','' @ [CHR 0x0A] @ ''  data: '' @ dataType @ [CHR 0x0A] @ ''} & ''
                           @ renderType @ '','' @ [CHR 0x0A]))
              | Inr _ \<Rightarrow> Inl (ThrowError (TypeError ''The path argument must be of type string''))))"

fun entriesStr ::
  "world \<Rightarrow> string \<Rightarrow> bool option \<Rightarrow> EntryMetadata js_object \<Rightarrow> string list \<Rightarrow> thrown + string"
  where
  "entriesStr w collectionKey collectionConfig es [] = Inr []"
| "entriesStr w collectionKey collectionConfig es (entryKey # entryKeys) =
     (case map_of es entryKey of
        None \<Rightarrow> Inl (ThrowError (TypeError ''Cannot read properties of undefined''))
      | Some entryMetadata \<Rightarrow>
          (case entryStr w collectionKey collectionConfig entryKey entryMetadata of
             Inl e \<Rightarrow> Inl e
           | Inr s \<Rightarrow>
               (case entriesStr w collectionKey collectionConfig es entryKeys of
                  Inl e \<Rightarrow> Inl e
                | Inr rest \<Rightarrow> Inr (s @ rest))))"

definition collectionStr ::
  "world \<Rightarrow> ContentConfig option \<Rightarrow> CollectionTypes \<Rightarrow> string \<Rightarrow> thrown + string" where
  "collectionStr w contentConfig contentTypes collectionKey =
     (case (case contentConfig of
              None \<Rightarrow> Inr None
            | Some cfg \<Rightarrow>
                (case JSON_parse w collectionKey of
                   Inl e \<Rightarrow> Inl e
                 | Inr v \<Rightarrow> Inr (map_of (collections cfg) (property_key v)))) of
        Inl e \<Rightarrow> Inl e
      | Inr collectionConfig \<Rightarrow>
          (case map_of contentTypes collectionKey of
             None \<Rightarrow> Inl (ThrowError (TypeError ''Cannot convert undefined or null to object''))
           | Some es \<Rightarrow>
               (case entriesStr w collectionKey collectionConfig es (sort (Object_keys es)) of
                  Inl e \<Rightarrow> Inl e
                | Inr body \<Rightarrow>
                    Inr (collectionKey @ '': {'' @ [CHR 0x0A] @ body @ ''},'' @ [CHR 0x0A]))))"

fun collectionsStr ::
  "world \<Rightarrow> ContentConfig option \<Rightarrow> CollectionTypes \<Rightarrow> string list \<Rightarrow> thrown + string" where
  "collectionsStr w contentConfig contentTypes [] = Inr []"
| "collectionsStr w contentConfig contentTypes (collectionKey # collectionKeys) =
     (case collectionStr w contentConfig contentTypes collectionKey of
        Inl e \<Rightarrow> Inl e
      | Inr s \<Rightarrow>
          (case collectionsStr w contentConfig contentTypes collectionKeys of
             Inl e \<Rightarrow> Inl e
           | Inr rest \<Rightarrow> Inr (s @ rest)))"

definition contentTypesStr ::
  "world \<Rightarrow> ContentConfig option \<Rightarrow> CollectionTypes \<Rightarrow> thrown + string" where
  "contentTypesStr w contentConfig contentTypes =
     collectionsStr w contentConfig contentTypes (sort (Object_keys contentTypes))"

definition configImportPath :: "world \<Rightarrow> string" where
  "configImportPath w =
     (let p0 = configPathFromCacheDir w;
          p1 = (if \<not> isRelativePath w p0 then ''./'' @ p0 else p0)
      in if suffix ''.ts'' p1 then take (length p1 - 3) p1 else p1)"

definition withModuleTypes :: "string option list \<Rightarrow> string \<Rightarrow> string" where
  "withModuleTypes entryTypes template =
     fold (\<lambda>contentModuleTypes t.
             case contentModuleTypes of
               None \<Rightarrow> t
             | Some s \<Rightarrow> if s \<noteq> [] then s @ [CHR 0x0A] @ t else t)
          entryTypes template"

definition manifestText ::
  "world \<Rightarrow> ContentConfig option \<Rightarrow> string \<Rightarrow> string" where
  "manifestText w contentConfig typesStr =
     (let t0 = withModuleTypes (contentEntryTypes w) (typeTemplateContent w);
          t1 = js_replace t0 ''// @@ENTRY_MAP@@'' typesStr
      in js_replace t1 ([CHR 0x27] @ ''@@CONTENT_CONFIG_TYPE@@'' @ [CHR 0x27])
           (case contentConfig of
              Some cfg \<Rightarrow> ''typeof import('' @ JSON_stringify (configImportPath w) @ '')''
            | None \<Rightarrow> ''never''))"

definition writeContentFiles ::
  "world \<Rightarrow> generator \<Rightarrow> ContentConfig option \<Rightarrow> generator \<times> thrown option" where
  "writeContentFiles w st contentConfig =
     (case contentTypesStr w contentConfig (collectionTypes st) of
        Inl e \<Rightarrow> (st, Some e)
      | Inr typesStr \<Rightarrow>
          if \<not> cacheDirExists st \<and> mkdirSync w \<noteq> None
          then (emit MkdirCacheDir st, mkdirSync w)
          else (let st1 = (if \<not> cacheDirExists st
                           then emit MkdirCacheDir (st\<lparr>cacheDirExists := True\<rparr>)
                           else st);
                    text = manifestText w contentConfig typesStr
                in (emit (WriteFile text) st1, writeFile w text)))"

definition warnNonexistentCollections :: "ContentConfig \<Rightarrow> generator \<Rightarrow> generator" where
  "warnNonexistentCollections contentConfig st =
     fold (\<lambda>configuredCollection s.
             if map_of (collectionTypes s) (JSON_stringify configuredCollection) = None
             then emit (LogWarn (NotACollection (JSON_stringify configuredCollection))) s
             else s)
          (Object_keys (collections contentConfig)) st"

subsection \<open>\<open>runEvents\<close>\<close>

text \<open>
  The \<open>for\<close> loop of \<open>runEvents\<close>. A handler that throws ends the loop: the state keeps
  what the earlier events did to it and the exception leaves \<open>runEvents\<close>.
\<close>

fun handleEvents ::
  "world \<Rightarrow> generator \<Rightarrow> EventWithOptions list \<Rightarrow> generator \<times> (thrown + response list)" where
  "handleEvents w st [] = (st, Inr [])"
| "handleEvents w st (ev # evs) =
     (case handleEvent w st (type ev) (opts ev) of
        Inl e \<Rightarrow> (st, Inl e)
      | Inr (st1, r) \<Rightarrow>
          (case handleEvents w st1 evs of
             (st2, Inl e) \<Rightarrow> (st2, Inl e)
           | (st2, Inr rs) \<Rightarrow> (st2, Inr (r # rs))))"

definition unsupportedFilesOf :: "response list \<Rightarrow> string list" where
  "unsupportedFilesOf eventResponses =
     concat (map (\<lambda>r. case error r of
                         Some (UnsupportedFileTypeError msg) \<Rightarrow> [msg]
                       | _ \<Rightarrow> [])
                 eventResponses)"

definition runEvents :: "world \<Rightarrow> generator \<Rightarrow> EventOpts option \<Rightarrow> generator \<times> thrown option"
  where
  "runEvents w st opts0 =
     (let level = (case opts0 of None \<Rightarrow> LevelInfo | Some eo \<Rightarrow> logLevel eo)
      in case handleEvents w st (events st) of
           (st1, Inl e) \<Rightarrow> (st1, Some e)
         | (st1, Inr eventResponses) \<Rightarrow>
             (let st2 = st1\<lparr>events := []\<rparr>;
                  unsupportedFiles = unsupportedFilesOf eventResponses;
                  st3 = (if unsupportedFiles \<noteq> [] \<and> level \<in> set [LevelInfo, LevelWarn]
                         then emit (LogWarn (UnsupportedFileTypes unsupportedFiles)) st2
                         else st2);
                  observable = contentConfigObserver st3
              in if list_ex shouldGenerateTypes eventResponses then
                   (case writeContentFiles w st3
                           (case observable of Loaded cfg \<Rightarrow> Some cfg | _ \<Rightarrow> None) of
                      (st4, Some e) \<Rightarrow> (st4, Some e)
                    | (st4, None) \<Rightarrow>
                        (case observable of
                           Loaded cfg \<Rightarrow>
                             (if level \<in> set [LevelInfo, LevelWarn]
                              then warnNonexistentCollections cfg st4 else st4, None)
                         | _ \<Rightarrow> (st4, None)))
                 else (st3, None)))"

section \<open>Asset propagation at build time (\<open>astroConfigBuildPlugin\<close>, hook \<open>build:post\<close>)\<close>

datatype output_type = ChunkType | AssetType

record OutputChunk =
  otype :: output_type
  code :: string
  modules :: "string list"
    \<comment> \<open>\<open>Object.keys(chunk.modules)\<close>\<close>
  fileName :: string

record ModuleInfo =
  info_id :: string
  importers :: "string list"

text \<open>
  A \<open>Set\<close> or a \<open>Map\<close> is a list in insertion order. The page data holds, per module
  id, the styles and scripts recorded for the page while it was rendered.
\<close>

record PageBuildData =
  propagatedStyles :: "string list js_object option"
  propagatedScripts :: "string list js_object option"

text \<open>
  What the hook takes from elsewhere: the graph walker and the page predicate of
  \<open>core/build/graph.js\<close>, the page table of \<open>core/build/internal.js\<close>, the path
  helpers of \<open>core/path.js\<close>, the build configuration and the two placeholder
  constants of \<open>consts.js\<close>.
\<close>

record build_world =
  walkParentInfos :: "string \<Rightarrow> ModuleInfo list"
    \<comment> \<open>the module infos the generator yields for a module id, in order\<close>
  moduleIsTopLevelPage :: "ModuleInfo \<Rightarrow> bool"
  getPageDataByViteID :: "string \<Rightarrow> PageBuildData option"
  assetsPrefix :: "string option"
  base :: string
  joinPaths :: "string \<Rightarrow> string \<Rightarrow> string"
  prependForwardSlash :: "string \<Rightarrow> string"
  LINKS_PLACEHOLDER :: string
  SCRIPTS_PLACEHOLDER :: string

definition set_add :: "'a \<Rightarrow> 'a list \<Rightarrow> 'a list" where
  \<comment> \<open>\<open>Set.prototype.add\<close>\<close>
  "set_add x xs = (if x \<in> set xs then xs else xs @ [x])"

definition set_add_all :: "'a list \<Rightarrow> 'a list \<Rightarrow> 'a list" where
  \<comment> \<open>\<open>for (const value of vs) xs.add(value)\<close>\<close>
  "set_add_all vs xs = fold set_add vs xs"

definition prependBase :: "build_world \<Rightarrow> string \<Rightarrow> string" where
  "prependBase bw src =
     (case assetsPrefix bw of
        Some prefix0 \<Rightarrow>
          if prefix0 \<noteq> [] then joinPaths bw prefix0 src
          else prependForwardSlash bw (joinPaths bw (base bw) src)
      | None \<Rightarrow> prependForwardSlash bw (joinPaths bw (base bw) src))"

definition map_get :: "'v js_object option \<Rightarrow> string \<Rightarrow> 'v option" where
  \<comment> \<open>\<open>m?.get(k)\<close>\<close>
  "map_get m k = (case m of None \<Rightarrow> None | Some al \<Rightarrow> map_of al k)"

text \<open>The body of the inner loop, for one yielded module info.\<close>

definition collectFromPage ::
  "build_world \<Rightarrow> string \<Rightarrow> ModuleInfo \<Rightarrow> string list \<times> string list \<Rightarrow> string list \<times> string list"
  where
  "collectFromPage bw id0 pageInfo acc =
     (case acc of (entryCSS, entryScripts) \<Rightarrow>
        if moduleIsTopLevelPage bw pageInfo then
          (case getPageDataByViteID bw (info_id pageInfo) of
             None \<Rightarrow> (entryCSS, entryScripts)
           | Some pageData \<Rightarrow>
               ((case map_get (propagatedStyles pageData) id0 of
                   Some vs \<Rightarrow> set_add_all vs entryCSS | None \<Rightarrow> entryCSS),
                (case map_get (propagatedScripts pageData) id0 of
                   Some vs \<Rightarrow> set_add_all vs entryScripts | None \<Rightarrow> entryScripts)))
        else (entryCSS, entryScripts))"

definition collectFromModule ::
  "build_world \<Rightarrow> string \<Rightarrow> string list \<times> string list \<Rightarrow> string list \<times> string list" where
  "collectFromModule bw id0 acc = fold (collectFromPage bw id0) (walkParentInfos bw id0) acc"

definition collectAssets :: "build_world \<Rightarrow> OutputChunk \<Rightarrow> string list \<times> string list" where
  "collectAssets bw chunk = fold (collectFromModule bw) (modules chunk) ([], [])"

definition clientChunkNames :: "string list \<Rightarrow> OutputChunk \<Rightarrow> string list \<Rightarrow> string list" where
  "clientChunkNames entryScripts clientChunk entryFileNames =
     (if otype clientChunk \<noteq> ChunkType then entryFileNames
      else fold (\<lambda>id0 names. if id0 \<in> set entryScripts
                              then set_add (fileName clientChunk) names else names)
                (modules clientChunk) entryFileNames)"

definition entryFileNamesOf :: "string list \<Rightarrow> OutputChunk list list \<Rightarrow> string list" where
  "entryFileNamesOf entryScripts clientOutputs =
     fold (\<lambda>output names. fold (clientChunkNames entryScripts) output names) clientOutputs []"

fun join_comma :: "string list \<Rightarrow> string" where
  "join_comma [] = []"
| "join_comma [x] = x"
| "join_comma (x # y # ys) = x @ '','' @ join_comma (y # ys)"

definition JSON_array :: "string list \<Rightarrow> string" where
  \<comment> \<open>\<open>JSON.stringify\<close> of an array, given the JSON text of each element\<close>
  "JSON_array elems = ''['' @ join_comma elems @ '']''"

definition JSON_script :: "string \<Rightarrow> string" where
  \<comment> \<open>\<open>JSON.stringify({ props: { src, type: 'module' }, children: '' })\<close>\<close>
  "JSON_script src =
     ''{'' @ JSON_stringify ''props'' @ '':{'' @ JSON_stringify ''src'' @ '':'' @ JSON_stringify src
     @ '','' @ JSON_stringify ''type'' @ '':'' @ JSON_stringify ''module'' @ ''},''
     @ JSON_stringify ''children'' @ '':'' @ JSON_stringify [] @ ''}''"

definition linksJSON :: "build_world \<Rightarrow> string list \<Rightarrow> string" where
  "linksJSON bw entryCSS = JSON_array (map (\<lambda>u. JSON_stringify (prependBase bw u)) entryCSS)"

definition scriptsJSON :: "build_world \<Rightarrow> string list \<Rightarrow> string" where
  "scriptsJSON bw entryFileNames = JSON_array (map (\<lambda>src. JSON_script (prependBase bw src)) entryFileNames)"

definition hasPlaceholder :: "build_world \<Rightarrow> OutputChunk \<Rightarrow> bool" where
  "hasPlaceholder bw chunk =
     (otype chunk = ChunkType
      \<and> (js_includes (code chunk) (LINKS_PLACEHOLDER bw)
         \<or> js_includes (code chunk) (SCRIPTS_PLACEHOLDER bw)))"

text \<open>The two \<open>if\<close> blocks that rewrite the chunk's code, one per placeholder.\<close>

definition replaceLinks :: "build_world \<Rightarrow> string list \<Rightarrow> string \<Rightarrow> string" where
  "replaceLinks bw entryCSS newCode =
     (if entryCSS \<noteq> []
      then js_replace newCode (JSON_stringify (LINKS_PLACEHOLDER bw)) (linksJSON bw entryCSS)
      else newCode)"

definition replaceScripts ::
  "build_world \<Rightarrow> OutputChunk list list \<Rightarrow> string list \<Rightarrow> string \<Rightarrow> string" where
  "replaceScripts bw clientOutputs entryScripts newCode =
     (if entryScripts \<noteq> []
      then js_replace newCode (JSON_stringify (SCRIPTS_PLACEHOLDER bw))
             (scriptsJSON bw (entryFileNamesOf entryScripts clientOutputs))
      else newCode)"

definition newCodeOf :: "build_world \<Rightarrow> OutputChunk list list \<Rightarrow> OutputChunk \<Rightarrow> string" where
  "newCodeOf bw clientOutputs chunk =
     (case collectAssets bw chunk of (entryCSS, entryScripts) \<Rightarrow>
        replaceScripts bw clientOutputs entryScripts (replaceLinks bw entryCSS (code chunk)))"

text \<open>The hook: every call of \<open>mutate(chunk, 'server', newCode)\<close>, in order.\<close>

definition build_post ::
  "build_world \<Rightarrow> OutputChunk list list \<Rightarrow> OutputChunk list list \<Rightarrow> (OutputChunk \<times> string) list"
  where
  "build_post bw ssrOutputs clientOutputs =
     map (\<lambda>chunk. (chunk, newCodeOf bw clientOutputs chunk))
         (filter (hasPlaceholder bw) (concat ssrOutputs))"

section \<open>Notions used in the statements, and example inputs\<close>

text \<open>
  The depth of a directory below the content root, counted as the code counts it: the
  number of \<open>/\<close>-separated segments of its path relative to the content root.
\<close>

definition pathDepth :: "string \<Rightarrow> nat" where
  "pathDepth rel = length (js_split CHR ''/'' rel)"

text \<open>
  A small project, with paths written relative to the content directory: a config file,
  two documents in \<open>blog\<close> (one of which cannot be read), one data file in \<open>data\<close>,
  and one file of an unsupported type. Front matter is the text \<open>slug: \<close> followed by
  the slug. \<open>JSON.parse\<close> and \<open>path.extname\<close> are given for the names used here,
  which need no escaping and contain one dot.
\<close>

definition example_world :: world where
  "example_world = \<lparr>
     relativeToContentDir = (\<lambda>p. p),
     getEntryType = (\<lambda>p.
       if p = ''config.ts'' then Config
       else if p = ''blog/post.md'' \<or> p = ''blog/bad.md'' then Content
       else if p = ''data/settings.json'' then Data
       else if p = ''blog/notes.txt'' then Unsupported
       else Ignored),
     getEntryCollectionName = (\<lambda>p.
       if p = ''blog/post.md'' \<or> p = ''blog/bad.md'' then Some ''blog''
       else if p = ''data/settings.json'' then Some ''data''
       else None),
     getDataEntryId = (\<lambda>p c. drop (Suc (length c)) p),
     getContentEntryIdAndSlug = (\<lambda>p c. (drop (Suc (length c)) p, ''post'')),
     readFile = (\<lambda>p.
       if p = ''blog/bad.md'' then Inl (ThrowError (OtherError ''YAMLException''))
       else Inr ''slug: custom''),
     parseFrontmatter = (\<lambda>raw p. Inr (JsString (drop 6 raw))),
     getEntrySlug = (\<lambda>id0 slug0 c v.
       case v of
         JsUndefined \<Rightarrow> Inr slug0
       | JsString s \<Rightarrow> Inr s
       | JsOther x \<Rightarrow> Inl (ThrowError (AstroError ''InvalidContentEntrySlugError''))),
     loadContentConfig = Inr (Some \<lparr>collections = [(''blog'', True)]\<rparr>),
     mkdirSync = None,
     writeFile = (\<lambda>text. None),
     JSON_parse = (\<lambda>s. Inr (JsString (butlast (tl s)))),
     path_extname = (\<lambda>p. dropWhile (\<lambda>c. c \<noteq> CHR ''.'') p),
     configPathFromCacheDir = ''../src/content/config.ts'',
     isRelativePath = (\<lambda>p. prefix ''.'' p),
     typeTemplateContent = ''type Entries = { // @@ENTRY_MAP@@ }'',
     contentEntryTypes = []
   \<rparr>"

text \<open>The same project with a config module that throws a value that is no \<open>Error\<close>.\<close>

definition throwing_world :: world where
  "throwing_world = example_world\<lparr>loadContentConfig := Inl (ThrowValue ''boom'')\<rparr>"

text \<open>The same project where the cache directory cannot be created.\<close>

definition readonly_world :: world where
  "readonly_world = example_world\<lparr>mkdirSync := Some (ThrowError (OtherError ''EACCES''))\<rparr>"

definition empty_generator :: generator where
  "empty_generator = \<lparr>collectionTypes = [], contentConfigObserver = Init, events = [],
     cacheDirExists = False, effects = []\<rparr>"

definition tracked_generator :: generator where
  "tracked_generator = \<lparr>
     collectionTypes =
       [(JSON_stringify ''blog'', [(JSON_stringify ''post.md'', ContentEntryMetadata ''old'')]),
        (JSON_stringify ''data'', [(JSON_stringify ''settings.json'', DataEntryMetadata)])],
     contentConfigObserver = Init, events = [], cacheDirExists = True, effects = []\<rparr>"

text \<open>
  Three more states of the generator: both collections known and empty; and one in which
  the unreadable document is already tracked.
\<close>

definition bare_generator :: generator where
  "bare_generator = \<lparr>
     collectionTypes = [(JSON_stringify ''blog'', []), (JSON_stringify ''data'', [])],
     contentConfigObserver = Init, events = [], cacheDirExists = True, effects = []\<rparr>"

definition stale_generator :: generator where
  "stale_generator = \<lparr>
     collectionTypes =
       [(JSON_stringify ''blog'', [(JSON_stringify ''bad.md'', ContentEntryMetadata ''old'')])],
     contentConfigObserver = Init, events = [], cacheDirExists = True, effects = []\<rparr>"

text \<open>
  Two observations on a state of the generator: the texts written to the manifest file so
  far, in order, and the config that \<open>runEvents\<close> passes to the writer
  (\<open>observable.status === 'loaded' ? observable.config : undefined\<close>).
\<close>

definition manifestWrites :: "generator \<Rightarrow> string list" where
  "manifestWrites st = concat (map (\<lambda>e. case e of WriteFile t \<Rightarrow> [t] | _ \<Rightarrow> []) (effects st))"

definition loadedConfig :: "generator \<Rightarrow> ContentConfig option" where
  "loadedConfig st = (case contentConfigObserver st of Loaded cfg \<Rightarrow> Some cfg | _ \<Rightarrow> None)"

text \<open>
  Two batches of queued events: a directory event followed by the document that cannot be
  read; and the config file, a document and a changed data file.
\<close>

definition failing_batch :: generator where
  "failing_batch = empty_generator\<lparr>events :=
     [\<lparr>type = \<lparr>name = AddDir, entry = ''blog''\<rparr>, opts = None\<rparr>,
      \<lparr>type = \<lparr>name = Add, entry = ''blog/bad.md''\<rparr>, opts = None\<rparr>]\<rparr>"

definition scan_batch :: generator where
  "scan_batch = empty_generator\<lparr>events :=
     [\<lparr>type = \<lparr>name = Add, entry = ''config.ts''\<rparr>, opts = Some \<lparr>logLevel = LevelWarn\<rparr>\<rparr>,
      \<lparr>type = \<lparr>name = Add, entry = ''blog/post.md''\<rparr>, opts = Some \<lparr>logLevel = LevelWarn\<rparr>\<rparr>,
      \<lparr>type = \<lparr>name = Change, entry = ''data/settings.json''\<rparr>, opts = Some \<lparr>logLevel = LevelWarn\<rparr>\<rparr>]\<rparr>"

text \<open>
  Two objects hold the same contents when they have the same keys, each once, whatever
  their insertion order, and the same value under every key; two Collection Maps hold
  the same contents when they have the same collections and every collection has the same
  entries with the same metadata.
\<close>

definition same_object :: "('v \<Rightarrow> 'v \<Rightarrow> bool) \<Rightarrow> 'v js_object \<Rightarrow> 'v js_object \<Rightarrow> bool" where
  "same_object same_value obj obj' \<longleftrightarrow>
     distinct (Object_keys obj) \<and> distinct (Object_keys obj')
     \<and> set (Object_keys obj) = set (Object_keys obj')
     \<and> list_all (\<lambda>k. case (map_of obj k, map_of obj' k) of
                         (Some v, Some v') \<Rightarrow> same_value v v'
                       | _ \<Rightarrow> False) (Object_keys obj)"

definition same_collections :: "CollectionTypes \<Rightarrow> CollectionTypes \<Rightarrow> bool" where
  "same_collections m m' = same_object (same_object (=)) m m'"

text \<open>
  A batch that adds the directories \<open>docs\<close> and \<open>docs old\<close>, and the Collection Map
  of \<open>tracked_generator\<close> with its collections inserted in the other order.
\<close>

definition dirs_batch :: generator where
  "dirs_batch = empty_generator\<lparr>events :=
     [\<lparr>type = \<lparr>name = AddDir, entry = ''docs''\<rparr>, opts = None\<rparr>,
      \<lparr>type = \<lparr>name = AddDir, entry = ''docs old''\<rparr>, opts = None\<rparr>]\<rparr>"

definition reordered_collections :: CollectionTypes where
  "reordered_collections =
     [(JSON_stringify ''data'', [(JSON_stringify ''settings.json'', DataEntryMetadata)]),
      (JSON_stringify ''blog'', [(JSON_stringify ''post.md'', ContentEntryMetadata ''old'')])]"

text \<open>
  The styles and the scripts that one yielded module info contributes for a module id:
  those its page data records for that id when the info is a top-level page with page
  data, and none otherwise.
\<close>

definition stylesOf :: "build_world \<Rightarrow> string \<Rightarrow> ModuleInfo \<Rightarrow> string set" where
  "stylesOf bw id0 pageInfo =
     (if moduleIsTopLevelPage bw pageInfo then
        (case getPageDataByViteID bw (info_id pageInfo) of
           None \<Rightarrow> {}
         | Some pageData \<Rightarrow>
             (case map_get (propagatedStyles pageData) id0 of None \<Rightarrow> {} | Some vs \<Rightarrow> set vs))
      else {})"

definition scriptsOf :: "build_world \<Rightarrow> string \<Rightarrow> ModuleInfo \<Rightarrow> string set" where
  "scriptsOf bw id0 pageInfo =
     (if moduleIsTopLevelPage bw pageInfo then
        (case getPageDataByViteID bw (info_id pageInfo) of
           None \<Rightarrow> {}
         | Some pageData \<Rightarrow>
             (case map_get (propagatedScripts pageData) id0 of None \<Rightarrow> {} | Some vs \<Rightarrow> set vs))
      else {})"

text \<open>
  A build in which the module \<open>post.md\<close> is imported by the page \<open>page.astro\<close>
  through a layout and, twice, directly; the page data records the given styles for the
  module. The chunk \<open>links_chunk\<close> holds the module and the links placeholder as the
  \<open>load\<close> hook writes it; \<open>single_quoted_chunk\<close> holds the same token between
  single quotes.
\<close>

definition example_build_world :: "string list \<Rightarrow> build_world" where
  "example_build_world styles = \<lparr>
     walkParentInfos = (\<lambda>id0.
       if id0 = ''post.md''
       then [\<lparr>info_id = ''layout.astro'', importers = [''page.astro'']\<rparr>,
             \<lparr>info_id = ''page.astro'', importers = []\<rparr>,
             \<lparr>info_id = ''page.astro'', importers = []\<rparr>]
       else []),
     moduleIsTopLevelPage = (\<lambda>info. importers info = []),
     getPageDataByViteID = (\<lambda>id0.
       if id0 = ''page.astro''
       then Some \<lparr>propagatedStyles = Some [(''post.md'', styles)], propagatedScripts = None\<rparr>
       else None),
     assetsPrefix = None,
     base = ''/'',
     joinPaths = (\<lambda>a b.
       (if a \<noteq> [] \<and> last a = CHR ''/'' then butlast a else a) @ ''/''
       @ (if b \<noteq> [] \<and> hd b = CHR ''/'' then tl b else b)),
     prependForwardSlash = (\<lambda>s. if s \<noteq> [] \<and> hd s = CHR ''/'' then s else CHR ''/'' # s),
     LINKS_PLACEHOLDER = ''@@ASTRO-LINKS@@'',
     SCRIPTS_PLACEHOLDER = ''@@ASTRO-SCRIPTS@@''
   \<rparr>"

definition links_chunk :: OutputChunk where
  "links_chunk = \<lparr>otype = ChunkType,
     code = ''const collectedLinks = '' @ JSON_stringify ''@@ASTRO-LINKS@@'' @ '';'',
     modules = [''post.md''], fileName = ''chunks/post.mjs''\<rparr>"

definition single_quoted_chunk :: OutputChunk where
  "single_quoted_chunk = \<lparr>otype = ChunkType,
     code = ''const collectedLinks = '' @ [CHR 0x27] @ ''@@ASTRO-LINKS@@'' @ [CHR 0x27] @ '';'',
     modules = [''post.md''], fileName = ''chunks/post.mjs''\<rparr>"

text \<open>
  Two conditions under which serialising the Collection Map cannot throw: every key of the
  map, at both levels, is the output of \<open>JSON.stringify\<close>, as the keys that
  \<open>handleEvent\<close> stores are; and \<open>JSON.parse\<close> gives back the string that
  \<open>JSON.stringify\<close> quoted.
\<close>

definition quoted_entries :: "EntryMetadata js_object \<Rightarrow> bool" where
  "quoted_entries es \<longleftrightarrow> set (Object_keys es) \<subseteq> range JSON_stringify"

definition quoted_keys :: "CollectionTypes \<Rightarrow> bool" where
  "quoted_keys m \<longleftrightarrow>
     set (Object_keys m) \<subseteq> range JSON_stringify \<and> (\<forall>es \<in> set (map snd m). quoted_entries es)"

definition sane_JSON :: "world \<Rightarrow> bool" where
  "sane_JSON w \<longleftrightarrow> (\<forall>s. JSON_parse w (JSON_stringify s) = Inr (JsString s))"


text \<open>
  Handling a queue in order, said with \<open>handleEvent\<close> alone: \<open>steps\<close> lists, for
  the first events of \<open>evs\<close>, the state and the response that each handler returned,
  every event being handled in the state that the event before it left, and the first one
  in \<open>st\<close>. \<open>stateAfter\<close> is the state that the last of these steps left.
\<close>

fun handled_sequentially ::
  "world \<Rightarrow> generator \<Rightarrow> EventWithOptions list \<Rightarrow> (generator \<times> response) list \<Rightarrow> bool" where
  "handled_sequentially w st evs [] = True"
| "handled_sequentially w st [] (step # steps) = False"
| "handled_sequentially w st (ev # evs) (step # steps) =
     (handleEvent w st (type ev) (opts ev) = Inr step
      \<and> handled_sequentially w (fst step) evs steps)"

definition stateAfter :: "generator \<Rightarrow> (generator \<times> response) list \<Rightarrow> generator" where
  "stateAfter st steps = last (st # map fst steps)"

section \<open>Properties\<close>

subsection \<open>Auxiliary facts\<close>

lemmas example_defs =
  example_world_def throwing_world_def readonly_world_def empty_generator_def tracked_generator_def
  bare_generator_def stale_generator_def failing_batch_def scan_batch_def dirs_batch_def
  reordered_collections_def

lemmas handle_defs = handleEvent_def handleContentEntry_def handleDataEntry_def parseSlug_def
  addEntryIfAbsent_def unlinkEntry_def setEntry_def removeEntry_def addCollection_def
  removeCollection_def reply_def js_in_def Object_keys_def emit_def

lemma JSON_stringify_examples [simp]:
  "JSON_stringify ''blog'' = CHR 0x22 # ''blog'' @ [CHR 0x22]"
  "JSON_stringify ''data'' = CHR 0x22 # ''data'' @ [CHR 0x22]"
  "JSON_stringify ''post.md'' = CHR 0x22 # ''post.md'' @ [CHR 0x22]"
  "JSON_stringify ''bad.md'' = CHR 0x22 # ''bad.md'' @ [CHR 0x22]"
  "JSON_stringify ''settings.json'' = CHR 0x22 # ''settings.json'' @ [CHR 0x22]"
  by (simp_all add: JSON_stringify_def quote_char_def)

lemma js_split_nonempty: "js_split sep s \<noteq> []"
  by (induction s) (auto split: list.splits)

lemma length_js_split: "length (js_split sep s) = Suc (count_list s sep)"
  by (induction s) (auto split: list.splits simp: js_split_nonempty)

lemma pathDepth_one_iff: "pathDepth rel = 1 \<longleftrightarrow> CHR ''/'' \<notin> set rel"
  by (simp add: pathDepth_def length_js_split count_list_0_iff)

lemma js_in_map_of: "js_in k obj \<longleftrightarrow> map_of obj k \<noteq> None"
  by (simp add: js_in_def Object_keys_def map_of_eq_None_iff)

lemma map_of_addCollection:
  "map_of (addCollection m ck) k = (if k = ck then Some [] else map_of m k)"
  by (simp add: addCollection_def update_conv')

lemma map_of_removeCollection:
  "map_of (removeCollection m ck) k = (if k = ck then None else map_of m k)"
  by (simp add: removeCollection_def delete_conv')

lemma setEntry_present:
  "map_of m ck = Some es \<Longrightarrow>
   setEntry m ck ek md = Inr (AList.update ck (AList.update ek md es) m)"
  by (simp add: setEntry_def)

subsection \<open>Directory events\<close>

text \<open>
  C5. A directory event (\<open>addDir\<close> or \<open>unlinkDir\<close>) always returns. When the
  directory is at depth 1 below the content root, regeneration is signalled, after
  \<open>addDir\<close> the collection of that name has an empty entry map, after \<open>unlinkDir\<close>
  it is gone, and no other collection is touched. At any other depth the whole state is
  unchanged and no regeneration is signalled.
\<close>

theorem directory_event_depth:
  assumes "name event = AddDir \<or> name event = UnlinkDir"
  shows "\<exists>st' r. handleEvent w st event opts0 = Inr (st', r) \<and>
     (if pathDepth (relativeToContentDir w (entry event)) = 1 then
        shouldGenerateTypes r \<and>
        map_of (collectionTypes st') (JSON_stringify (relativeToContentDir w (entry event)))
          = (if name event = AddDir then Some [] else None) \<and>
        (\<forall>k. k \<noteq> JSON_stringify (relativeToContentDir w (entry event)) \<longrightarrow>
           map_of (collectionTypes st') k = map_of (collectionTypes st) k)
      else st' = st \<and> \<not> shouldGenerateTypes r)"
  using assms
  by (auto simp: handleEvent_def reply_def pathDepth_def Let_def emit_def
      map_of_addCollection map_of_removeCollection)

theorem directory_event_depth_witness:
  "(name \<lparr>name = AddDir, entry = ''blog''\<rparr> = AddDir
      \<or> name \<lparr>name = AddDir, entry = ''blog''\<rparr> = UnlinkDir)
   \<and> pathDepth (relativeToContentDir example_world ''blog'') = 1
   \<and> handleEvent example_world empty_generator \<lparr>name = AddDir, entry = ''blog''\<rparr> None
       = Inr (empty_generator\<lparr>collectionTypes := [(JSON_stringify ''blog'', [])],
                 effects := [LogInfo (CollectionAdded ''blog'')]\<rparr>,
              \<lparr>shouldGenerateTypes = True, error = None\<rparr>)
   \<and> pathDepth (relativeToContentDir example_world ''blog/drafts'') = 2
   \<and> handleEvent example_world tracked_generator \<lparr>name = UnlinkDir, entry = ''blog/drafts''\<rparr> None
       = Inr (tracked_generator, \<lparr>shouldGenerateTypes = False, error = None\<rparr>)"
  using directory_event_depth
      [of "\<lparr>name = AddDir, entry = ''blog''\<rparr>" example_world empty_generator None]
    directory_event_depth
      [of "\<lparr>name = UnlinkDir, entry = ''blog/drafts''\<rparr>" example_world tracked_generator None]
  by (simp add: example_defs pathDepth_def handleEvent_def reply_def emit_def Let_def
      addCollection_def)

subsection \<open>Data entries\<close>

text \<open>
  C7. A \<open>change\<close> event for a data entry always returns, never reports that a
  regeneration is required, and leaves the Collection Map as it was.
\<close>

theorem data_change_no_regeneration:
  assumes "name event = Change" and "getEntryType w (entry event) = Data"
  shows "\<exists>st' r. handleEvent w st event opts0 = Inr (st', r) \<and>
     \<not> shouldGenerateTypes r \<and> collectionTypes st' = collectionTypes st"
  using assms
  by (auto simp: handleEvent_def handleDataEntry_def reply_def Let_def emit_def
      split: option.splits)

theorem data_change_no_regeneration_witness:
  "name \<lparr>name = Change, entry = ''data/settings.json''\<rparr> = Change
   \<and> getEntryType example_world ''data/settings.json'' = Data
   \<and> handleEvent example_world tracked_generator \<lparr>name = Change, entry = ''data/settings.json''\<rparr> None
       = Inr (tracked_generator, \<lparr>shouldGenerateTypes = False, error = None\<rparr>)"
  using data_change_no_regeneration
      [of "\<lparr>name = Change, entry = ''data/settings.json''\<rparr>" example_world tracked_generator None]
  by (simp add: example_defs handleEvent_def handleDataEntry_def reply_def Let_def)

subsection \<open>Content entries\<close>

text \<open>
  C1 (amended). For a tracked content entry, whose stored metadata has slug
  \<open>storedSlug\<close>, a \<open>change\<close> event recomputes the slug. When the recomputation
  throws, the handler throws that exception and reports nothing. When it yields
  \<open>changedSlug\<close>, the handler returns and reports that a regeneration is required if
  and only if \<open>changedSlug\<close> differs from \<open>storedSlug\<close>: then the entry gets the
  new slug, in place, and otherwise the state is unchanged.
\<close>

theorem content_change_regenerates_iff_slug_differs:
  assumes "name event = Change"
      and "getEntryType w (entry event) = Content"
      and "getEntryCollectionName w (entry event) = Some collection"
      and "getContentEntryIdAndSlug w (entry event) collection = (id0, slug0)"
      and "map_of (collectionTypes st) (JSON_stringify collection) = Some es"
      and "map_of es (JSON_stringify id0) = Some (ContentEntryMetadata storedSlug)"
  shows "handleEvent w st event opts0 =
     (case parseSlug w event id0 slug0 collection of
        Inl e \<Rightarrow> Inl e
      | Inr changedSlug \<Rightarrow>
          Inr (if changedSlug \<noteq> storedSlug
               then st\<lparr>collectionTypes :=
                        AList.update (JSON_stringify collection)
                          (AList.update (JSON_stringify id0) (ContentEntryMetadata changedSlug) es)
                          (collectionTypes st)\<rparr>
               else st,
               \<lparr>shouldGenerateTypes = (changedSlug \<noteq> storedSlug), error = None\<rparr>))"
  using assms
  by (auto simp: handleEvent_def handleContentEntry_def reply_def Let_def setEntry_present
      split: sum.splits)

theorem content_change_regenerates_iff_slug_differs_witness:
  "handleEvent example_world tracked_generator \<lparr>name = Change, entry = ''blog/post.md''\<rparr> None
     = Inr (tracked_generator\<lparr>collectionTypes :=
              [(JSON_stringify ''blog'', [(JSON_stringify ''post.md'', ContentEntryMetadata ''custom'')]),
               (JSON_stringify ''data'', [(JSON_stringify ''settings.json'', DataEntryMetadata)])]\<rparr>,
            \<lparr>shouldGenerateTypes = True, error = None\<rparr>)"
proof -
  let ?ev = "\<lparr>name = Change, entry = ''blog/post.md''\<rparr>"
  have h1: "name ?ev = Change" by simp
  have h2: "getEntryType example_world (entry ?ev) = Content"
    by (simp add: example_world_def)
  have h3: "getEntryCollectionName example_world (entry ?ev) = Some ''blog''"
    by (simp add: example_world_def)
  have h4: "getContentEntryIdAndSlug example_world (entry ?ev) ''blog'' = (''post.md'', ''post'')"
    by (simp add: example_world_def)
  have h5: "map_of (collectionTypes tracked_generator) (JSON_stringify ''blog'')
              = Some [(JSON_stringify ''post.md'', ContentEntryMetadata ''old'')]"
    by (simp add: tracked_generator_def)
  have h6: "map_of [(JSON_stringify ''post.md'', ContentEntryMetadata ''old'')]
              (JSON_stringify ''post.md'') = Some (ContentEntryMetadata ''old'')"
    by simp
  have h7: "parseSlug example_world ?ev ''post.md'' ''post'' ''blog'' = Inr ''custom''"
    by (simp add: example_world_def parseSlug_def)
  from content_change_regenerates_iff_slug_differs [OF h1 h2 h3 h4 h5 h6, of None] h7
  show ?thesis
    by (simp add: tracked_generator_def)
qed

text \<open>
  The claim as first stated fails for a tracked document that can no longer be read: the
  slug is not recomputed and the handler throws instead of reporting.
\<close>

theorem content_change_may_throw_counterexample:
  "name \<lparr>name = Change, entry = ''blog/bad.md''\<rparr> = Change
   \<and> getEntryType example_world ''blog/bad.md'' = Content
   \<and> getEntryCollectionName example_world ''blog/bad.md'' = Some ''blog''
   \<and> getContentEntryIdAndSlug example_world ''blog/bad.md'' ''blog'' = (''bad.md'', ''post'')
   \<and> map_of (collectionTypes stale_generator) (JSON_stringify ''blog'')
       = Some [(JSON_stringify ''bad.md'', ContentEntryMetadata ''old'')]
   \<and> map_of [(JSON_stringify ''bad.md'', ContentEntryMetadata ''old'')] (JSON_stringify ''bad.md'')
       = Some (ContentEntryMetadata ''old'')
   \<and> handleEvent example_world stale_generator \<lparr>name = Change, entry = ''blog/bad.md''\<rparr> None
       = Inl (ThrowError (OtherError ''YAMLException''))"
  by (simp add: example_defs handle_defs)

subsection \<open>Config-file events\<close>

text \<open>
  C8 (amended). A config-file event always returns and reports that a regeneration is
  required. It sets the observable to \<open>loading\<close>, then invokes the loader, then sets
  the observable to \<open>loaded\<close> with the definition the loader returned, to
  \<open>does-not-exist\<close> when it returned none, to \<open>error\<close> with the thrown \<open>Error\<close>
  when it threw one, and to \<open>error\<close> with a generic unknown-content-collection error
  when it threw a value that is no \<open>Error\<close>. The Collection Map is not touched.
\<close>

theorem config_event_observable:
  assumes "name event \<noteq> AddDir" and "name event \<noteq> UnlinkDir"
      and "getEntryType w (entry event) = Config"
  shows "handleEvent w st event opts0 =
     (let final = (case loadContentConfig w of
                     Inr (Some cfg) \<Rightarrow> Loaded cfg
                   | Inr None \<Rightarrow> DoesNotExist
                   | Inl (ThrowError err) \<Rightarrow> ErrorStatus err
                   | Inl (ThrowValue v) \<Rightarrow> ErrorStatus (AstroError ''UnknownContentCollectionError''))
      in Inr (st\<lparr>contentConfigObserver := final,
                 effects := effects st @ [ObserverSet Loading, LoadContentConfig]
                   @ (case loadContentConfig w of Inr c \<Rightarrow> [ConsoleLog c] | Inl e \<Rightarrow> [])
                   @ [ObserverSet final]\<rparr>,
              \<lparr>shouldGenerateTypes = True, error = None\<rparr>))"
  using assms
  by (auto simp: handleEvent_def handleConfig_def reply_def Let_def emit_def observer_set_def
      split: sum.splits option.splits thrown.splits)

theorem config_event_observable_witness:
  "name \<lparr>name = Add, entry = ''config.ts''\<rparr> \<noteq> AddDir
   \<and> name \<lparr>name = Add, entry = ''config.ts''\<rparr> \<noteq> UnlinkDir
   \<and> getEntryType example_world ''config.ts'' = Config
   \<and> handleEvent example_world empty_generator \<lparr>name = Add, entry = ''config.ts''\<rparr> None
       = Inr (empty_generator\<lparr>
                contentConfigObserver := Loaded \<lparr>collections = [(''blog'', True)]\<rparr>,
                effects := [ObserverSet Loading, LoadContentConfig,
                            ConsoleLog (Some \<lparr>collections = [(''blog'', True)]\<rparr>),
                            ObserverSet (Loaded \<lparr>collections = [(''blog'', True)]\<rparr>)]\<rparr>,
              \<lparr>shouldGenerateTypes = True, error = None\<rparr>)"
  using config_event_observable
      [of "\<lparr>name = Add, entry = ''config.ts''\<rparr>" example_world empty_generator None]
  by (simp add: example_defs Let_def)

text \<open>
  The claim as first stated fails when the loader throws the string \<open>boom\<close>: the
  observable then carries the generic error, not the cause.
\<close>

theorem config_error_not_the_cause_counterexample:
  "getEntryType throwing_world ''config.ts'' = Config
   \<and> loadContentConfig throwing_world = Inl (ThrowValue ''boom'')
   \<and> handleEvent throwing_world empty_generator \<lparr>name = Add, entry = ''config.ts''\<rparr> None
       = Inr (empty_generator\<lparr>
                contentConfigObserver := ErrorStatus (AstroError ''UnknownContentCollectionError''),
                effects := [ObserverSet Loading, LoadContentConfig,
                            ObserverSet (ErrorStatus (AstroError ''UnknownContentCollectionError''))]\<rparr>,
              \<lparr>shouldGenerateTypes = True, error = None\<rparr>)"
  by (simp add: example_defs handleEvent_def handleConfig_def reply_def emit_def observer_set_def)

subsection \<open>Adding and removing entries\<close>

lemma removeEntry_present:
  "map_of m ck = Some es \<Longrightarrow>
   removeEntry m ck ek = Inr (AList.update ck (AList.delete ek es) m)"
  by (simp add: removeEntry_def)

lemma update_absent: "k \<notin> fst ` set al \<Longrightarrow> AList.update k v al = al @ [(k, v)]"
  by (induction al) auto



lemma addEntryIfAbsent_present:
  assumes "map_of (collectionTypes st) ck = Some es" and "js_in ek es"
  shows "addEntryIfAbsent st ck ek md = Inr (st, \<lparr>shouldGenerateTypes = True, error = None\<rparr>)"
  using assms by (simp add: addEntryIfAbsent_def js_in_map_of reply_def)

lemma addEntryIfAbsent_new_entry:
  assumes "map_of (collectionTypes st) ck = Some es" and "\<not> js_in ek es"
  shows "addEntryIfAbsent st ck ek md =
     Inr (st\<lparr>collectionTypes := AList.update ck (AList.update ek md es) (collectionTypes st)\<rparr>,
          \<lparr>shouldGenerateTypes = True, error = None\<rparr>)"
  using assms by (simp add: addEntryIfAbsent_def js_in_map_of reply_def setEntry_present)


lemma unlinkEntry_present:
  assumes "map_of (collectionTypes st) ck = Some es" and "js_in ek es"
  shows "unlinkEntry st ck ek =
     Inr (st\<lparr>collectionTypes := AList.update ck (AList.delete ek es) (collectionTypes st)\<rparr>,
          \<lparr>shouldGenerateTypes = True, error = None\<rparr>)"
  using assms by (simp add: unlinkEntry_def js_in_map_of reply_def removeEntry_present)


lemma add_then_unlink_entry:
  assumes "map_of (collectionTypes st) ck = Some es" and "\<not> js_in ek es"
      and "addEntryIfAbsent st ck ek md = Inr (st1, r1)"
  shows "\<exists>r2. unlinkEntry st1 ck ek = Inr (st, r2)"
proof -
  let ?es1 = "AList.update ek md es"
  let ?m1 = "AList.update ck ?es1 (collectionTypes st)"
  have st1: "st1 = st\<lparr>collectionTypes := ?m1\<rparr>"
    using assms by (simp add: addEntryIfAbsent_new_entry)
  have m1: "map_of (collectionTypes st1) ck = Some ?es1"
    by (simp add: st1 update_conv')
  have in1: "js_in ek ?es1"
    by (simp add: js_in_map_of update_conv')
  have d: "AList.delete ek ?es1 = es"
    using assms(2) by (simp add: delete_update_same js_in_def Object_keys_def)
  have "AList.update ck (AList.delete ek ?es1) (collectionTypes st1) = collectionTypes st"
    using assms(1) by (simp add: st1 d update_triv)
  then show ?thesis
    using unlinkEntry_present [OF m1 in1] by (simp add: st1)
qed

lemma handleEvent_entry:
  assumes "name event \<noteq> AddDir" and "name event \<noteq> UnlinkDir"
      and "getEntryCollectionName w (entry event) = Some collection"
  shows "getEntryType w (entry event) = Data \<Longrightarrow>
           handleEvent w st event opts0 = handleDataEntry w st event collection"
    and "getEntryType w (entry event) = Content \<Longrightarrow>
           handleEvent w st event opts0 = handleContentEntry w st event collection"
  using assms by (simp_all add: handleEvent_def)




text \<open>
  C10 (amended). An \<open>add\<close> event for a content or data entry whose id is already in
  its collection's entry map leaves the whole state, and so the stored metadata, as it
  was. It reports that a regeneration is required, unless the entry is a content entry
  and reading the file or parsing its front matter throws: then the handler throws that
  exception and reports nothing.
\<close>

theorem repeated_add_keeps_metadata:
  assumes "name event = Add"
      and "getEntryType w (entry event) = Content \<or> getEntryType w (entry event) = Data"
      and "getEntryCollectionName w (entry event) = Some collection"
      and "getContentEntryIdAndSlug w (entry event) collection = (id0, slug0)"
      and "entryKey = JSON_stringify (if getEntryType w (entry event) = Data
                                      then getDataEntryId w (entry event) collection else id0)"
      and "map_of (collectionTypes st) (JSON_stringify collection) = Some es"
      and "js_in entryKey es"
  shows "handleEvent w st event opts0 =
     (case (if getEntryType w (entry event) = Content
            then parseSlug w event id0 slug0 collection else Inr []) of
        Inl e \<Rightarrow> Inl e
      | Inr addedSlug \<Rightarrow> Inr (st, \<lparr>shouldGenerateTypes = True, error = None\<rparr>))"
proof (cases "getEntryType w (entry event) = Data")
  case True
  then show ?thesis
    using assms
    by (simp add: handleEvent_entry(1) handleDataEntry_def addEntryIfAbsent_present)
next
  case False
  then have c: "getEntryType w (entry event) = Content" using assms(2) by simp
  show ?thesis
    using assms c
    by (simp add: handleEvent_entry(2) handleContentEntry_def addEntryIfAbsent_present
        split: sum.splits)
qed

theorem repeated_add_keeps_metadata_witness:
  "handleEvent example_world tracked_generator \<lparr>name = Add, entry = ''blog/post.md''\<rparr> None
     = Inr (tracked_generator, \<lparr>shouldGenerateTypes = True, error = None\<rparr>)"
proof -
  let ?ev = "\<lparr>name = Add, entry = ''blog/post.md''\<rparr>"
  have h1: "name ?ev = Add" by simp
  have h2: "getEntryType example_world (entry ?ev) = Content
            \<or> getEntryType example_world (entry ?ev) = Data"
    by (simp add: example_world_def)
  have h3: "getEntryCollectionName example_world (entry ?ev) = Some ''blog''"
    by (simp add: example_world_def)
  have h4: "getContentEntryIdAndSlug example_world (entry ?ev) ''blog'' = (''post.md'', ''post'')"
    by (simp add: example_world_def)
  have h5: "JSON_stringify ''post.md''
              = JSON_stringify (if getEntryType example_world (entry ?ev) = Data
                                then getDataEntryId example_world (entry ?ev) ''blog''
                                else ''post.md'')"
    by (simp add: example_world_def)
  have h6: "map_of (collectionTypes tracked_generator) (JSON_stringify ''blog'')
              = Some [(JSON_stringify ''post.md'', ContentEntryMetadata ''old'')]"
    by (simp add: tracked_generator_def)
  have h7: "js_in (JSON_stringify ''post.md'')
              [(JSON_stringify ''post.md'', ContentEntryMetadata ''old'')]"
    by (simp add: js_in_def Object_keys_def)
  from repeated_add_keeps_metadata [OF h1 h2 h3 h4 h5 h6 h7, of None]
  show ?thesis
    by (simp add: example_world_def parseSlug_def)
qed

text \<open>
  The claim as first stated fails for a tracked document that can no longer be read: the
  handler throws instead of reporting.
\<close>

theorem repeated_add_may_throw_counterexample:
  "name \<lparr>name = Add, entry = ''blog/bad.md''\<rparr> = Add
   \<and> map_of (collectionTypes stale_generator) (JSON_stringify ''blog'')
       = Some [(JSON_stringify ''bad.md'', ContentEntryMetadata ''old'')]
   \<and> js_in (JSON_stringify ''bad.md'') [(JSON_stringify ''bad.md'', ContentEntryMetadata ''old'')]
   \<and> handleEvent example_world stale_generator \<lparr>name = Add, entry = ''blog/bad.md''\<rparr> None
       = Inl (ThrowError (OtherError ''YAMLException''))"
  by (simp add: example_defs handle_defs)

text \<open>
  C2 (amended). For an entry path whose collection is already in the Collection Map and
  whose entry id is not, and whose front matter can be parsed when it is a content entry,
  the \<open>add\<close> event returns, appends the entry to its collection, and the \<open>unlink\<close>
  event that follows returns the generator, and so the Collection Map, to its prior state.
\<close>

theorem add_then_unlink_round_trip:
  assumes "getEntryType w p = Content \<or> getEntryType w p = Data"
      and "getEntryCollectionName w p = Some collection"
      and "getContentEntryIdAndSlug w p collection = (id0, slug0)"
      and "entryKey = JSON_stringify (if getEntryType w p = Data
                                      then getDataEntryId w p collection else id0)"
      and "map_of (collectionTypes st) (JSON_stringify collection) = Some es"
      and "\<not> js_in entryKey es"
      and "getEntryType w p = Content \<longrightarrow>
             parseSlug w \<lparr>name = Add, entry = p\<rparr> id0 slug0 collection = Inr addedSlug"
  shows "\<exists>st1 r1 r2.
           handleEvent w st \<lparr>name = Add, entry = p\<rparr> opts1 = Inr (st1, r1)
         \<and> handleEvent w st1 \<lparr>name = Unlink, entry = p\<rparr> opts2 = Inr (st, r2)
         \<and> map_of (collectionTypes st1) (JSON_stringify collection)
             = Some (es @ [(entryKey, if getEntryType w p = Data then DataEntryMetadata
                                      else ContentEntryMetadata addedSlug)])"
proof -
  let ?ck = "JSON_stringify collection"
  let ?md = "if getEntryType w p = Data then DataEntryMetadata else ContentEntryMetadata addedSlug"
  let ?add = "\<lparr>name = Add, entry = p\<rparr>" and ?unlink = "\<lparr>name = Unlink, entry = p\<rparr>"
  have add: "handleEvent w st ?add opts1 = addEntryIfAbsent st ?ck entryKey ?md"
    using assms
    by (auto simp: handleEvent_def handleDataEntry_def handleContentEntry_def)
  have unlink: "handleEvent w st1 ?unlink opts2 = unlinkEntry st1 ?ck entryKey" for st1
    using assms
    by (auto simp: handleEvent_def handleDataEntry_def handleContentEntry_def)
  obtain st1 r1 where a: "addEntryIfAbsent st ?ck entryKey ?md = Inr (st1, r1)"
    using addEntryIfAbsent_new_entry [OF assms(5) assms(6)] by blast
  obtain r2 where u: "unlinkEntry st1 ?ck entryKey = Inr (st, r2)"
    using add_then_unlink_entry [OF assms(5) assms(6) a] by blast
  have st1: "st1 = st\<lparr>collectionTypes :=
                 AList.update ?ck (AList.update entryKey ?md es) (collectionTypes st)\<rparr>"
    using a addEntryIfAbsent_new_entry [OF assms(5) assms(6), of ?md] by simp
  have "AList.update entryKey ?md es = es @ [(entryKey, ?md)]"
    using assms(6) by (intro update_absent) (simp add: js_in_def Object_keys_def)
  then have m1: "map_of (collectionTypes st1) ?ck = Some (es @ [(entryKey, ?md)])"
    by (simp add: st1 update_conv')
  show ?thesis
    using add unlink a u m1 by auto
qed

theorem add_then_unlink_round_trip_witness:
  "handleEvent example_world bare_generator \<lparr>name = Add, entry = ''blog/post.md''\<rparr> None
     = Inr (bare_generator\<lparr>collectionTypes :=
              [(JSON_stringify ''blog'', [(JSON_stringify ''post.md'', ContentEntryMetadata ''custom'')]),
               (JSON_stringify ''data'', [])]\<rparr>,
            \<lparr>shouldGenerateTypes = True, error = None\<rparr>)
   \<and> handleEvent example_world
        (bare_generator\<lparr>collectionTypes :=
              [(JSON_stringify ''blog'', [(JSON_stringify ''post.md'', ContentEntryMetadata ''custom'')]),
               (JSON_stringify ''data'', [])]\<rparr>)
        \<lparr>name = Unlink, entry = ''blog/post.md''\<rparr> None
     = Inr (bare_generator, \<lparr>shouldGenerateTypes = True, error = None\<rparr>)"
proof -
  let ?p = "''blog/post.md''"
  have h1: "getEntryType example_world ?p = Content \<or> getEntryType example_world ?p = Data"
    by (simp add: example_world_def)
  have h2: "getEntryCollectionName example_world ?p = Some ''blog''"
    by (simp add: example_world_def)
  have h3: "getContentEntryIdAndSlug example_world ?p ''blog'' = (''post.md'', ''post'')"
    by (simp add: example_world_def)
  have h4: "JSON_stringify ''post.md''
              = JSON_stringify (if getEntryType example_world ?p = Data
                                then getDataEntryId example_world ?p ''blog'' else ''post.md'')"
    by (simp add: example_world_def)
  have h5: "map_of (collectionTypes bare_generator) (JSON_stringify ''blog'') = Some []"
    by (simp add: bare_generator_def)
  have h6: "\<not> js_in (JSON_stringify ''post.md'') ([] :: EntryMetadata js_object)"
    by (simp add: js_in_def Object_keys_def)
  have h7: "getEntryType example_world ?p = Content \<longrightarrow>
              parseSlug example_world \<lparr>name = Add, entry = ?p\<rparr> ''post.md'' ''post'' ''blog''
                = Inr ''custom''"
    by (simp add: example_world_def parseSlug_def)
  from add_then_unlink_round_trip [OF h1 h2 h3 h4 h5 h6 h7, of None None]
  show ?thesis
    by (simp add: example_defs handle_defs)
qed

text \<open>
  The claim as first stated fails on the empty Collection Map: \<open>add\<close> creates the
  collection \<open>blog\<close>, and \<open>unlink\<close> removes the entry but keeps the collection.
\<close>

theorem add_then_unlink_leaves_collection_counterexample:
  "handleEvent example_world empty_generator \<lparr>name = Add, entry = ''blog/post.md''\<rparr> None
     = Inr (empty_generator\<lparr>collectionTypes :=
              [(JSON_stringify ''blog'', [(JSON_stringify ''post.md'', ContentEntryMetadata ''custom'')])]\<rparr>,
            \<lparr>shouldGenerateTypes = True, error = None\<rparr>)
   \<and> handleEvent example_world
        (empty_generator\<lparr>collectionTypes :=
              [(JSON_stringify ''blog'', [(JSON_stringify ''post.md'', ContentEntryMetadata ''custom'')])]\<rparr>)
        \<lparr>name = Unlink, entry = ''blog/post.md''\<rparr> None
     = Inr (empty_generator\<lparr>collectionTypes := [(JSON_stringify ''blog'', [])]\<rparr>,
            \<lparr>shouldGenerateTypes = True, error = None\<rparr>)
   \<and> collectionTypes (empty_generator\<lparr>collectionTypes := [(JSON_stringify ''blog'', [])]\<rparr>)
       \<noteq> collectionTypes empty_generator"
  by (simp add: example_defs handle_defs)















subsection \<open>The batch runner\<close>

lemma manifestWrites_emit:
  "manifestWrites (emit e st) = manifestWrites st @ (case e of WriteFile t \<Rightarrow> [t] | _ \<Rightarrow> [])"
  by (simp add: manifestWrites_def emit_def)

lemma manifestWrites_update [simp]:
  "manifestWrites (st\<lparr>collectionTypes := m\<rparr>) = manifestWrites st"
  "manifestWrites (st\<lparr>events := evs\<rparr>) = manifestWrites st"
  "manifestWrites (st\<lparr>cacheDirExists := b\<rparr>) = manifestWrites st"
  "manifestWrites (st\<lparr>contentConfigObserver := v\<rparr>) = manifestWrites st"
  by (simp_all add: manifestWrites_def)

lemma emit_fields [simp]:
  "events (emit e st) = events st"
  "collectionTypes (emit e st) = collectionTypes st"
  "contentConfigObserver (emit e st) = contentConfigObserver st"
  "cacheDirExists (emit e st) = cacheDirExists st"
  by (simp_all add: emit_def)

lemma addEntryIfAbsent_frame:
  assumes "addEntryIfAbsent st ck ek md = Inr (st', r)"
  shows "manifestWrites st' = manifestWrites st \<and> events st' = events st"
  using assms
  by (auto simp: addEntryIfAbsent_def reply_def Let_def split: option.splits if_splits sum.splits)

lemma unlinkEntry_frame:
  assumes "unlinkEntry st ck ek = Inr (st', r)"
  shows "manifestWrites st' = manifestWrites st \<and> events st' = events st"
  using assms
  by (auto simp: unlinkEntry_def reply_def split: option.splits if_splits sum.splits)

lemma handleContentEntry_frame:
  assumes "handleContentEntry w st event collection = Inr (st', r)"
  shows "manifestWrites st' = manifestWrites st \<and> events st' = events st"
  using assms
  by (cases "name event")
    (auto simp: handleContentEntry_def reply_def fallOffEnd_def Let_def
      split: prod.splits sum.splits option.splits EntryMetadata.splits if_splits
      dest: addEntryIfAbsent_frame unlinkEntry_frame)

lemma handleDataEntry_frame:
  assumes "handleDataEntry w st event collection = Inr (st', r)"
  shows "manifestWrites st' = manifestWrites st \<and> events st' = events st"
  using assms
  by (cases "name event")
    (auto simp: handleDataEntry_def reply_def Let_def
      dest: addEntryIfAbsent_frame unlinkEntry_frame handleContentEntry_frame)

lemma handleConfig_frame:
  assumes "handleConfig w st = Inr (st', r)"
  shows "manifestWrites st' = manifestWrites st \<and> events st' = events st"
  using assms
  by (auto simp: handleConfig_def reply_def Let_def observer_set_def manifestWrites_emit
      split: sum.splits option.splits)

lemma handleEvent_frame:
  assumes "handleEvent w st event opts0 = Inr (st', r)"
  shows "manifestWrites st' = manifestWrites st \<and> events st' = events st"
proof (cases "name event = AddDir \<or> name event = UnlinkDir")
  case True
  then show ?thesis
    using assms
    by (auto simp: handleEvent_def reply_def Let_def manifestWrites_emit split: if_splits)
next
  case False
  then show ?thesis
    using assms
    by (auto simp: handleEvent_def reply_def Let_def manifestWrites_emit
        split: if_splits option.splits prod.splits
        dest: handleConfig_frame handleDataEntry_frame handleContentEntry_frame)
qed

lemma handleEvents_frame:
  "handleEvents w st evs = (st', res) \<Longrightarrow>
   manifestWrites st' = manifestWrites st \<and> events st' = events st"
proof (induction evs arbitrary: st st' res)
  case Nil
  then show ?case by simp
next
  case (Cons ev evs)
  show ?case
  proof (cases "handleEvent w st (type ev) (opts ev)")
    case (Inl e)
    then show ?thesis using Cons.prems by simp
  next
    case (Inr p)
    obtain st1 r where p: "p = (st1, r)" by (cases p)
    obtain st2 res2 where rest: "handleEvents w st1 evs = (st2, res2)"
      by (cases "handleEvents w st1 evs")
    have "st' = st2"
      using Cons.prems Inr p rest by (auto split: sum.splits)
    then show ?thesis
      using Cons.IH [OF rest] handleEvent_frame [of w st "type ev" "opts ev" st1 r] Inr p
      by simp
  qed
qed


lemma warnNonexistentCollections_frame:
  "manifestWrites (warnNonexistentCollections cfg st) = manifestWrites st
   \<and> events (warnNonexistentCollections cfg st) = events st
   \<and> collectionTypes (warnNonexistentCollections cfg st) = collectionTypes st"
proof -
  have "manifestWrites (fold (\<lambda>c s. if map_of (collectionTypes s) (JSON_stringify c) = None
              then emit (LogWarn (NotACollection (JSON_stringify c))) s else s) ks st)
          = manifestWrites st
      \<and> events (fold (\<lambda>c s. if map_of (collectionTypes s) (JSON_stringify c) = None
              then emit (LogWarn (NotACollection (JSON_stringify c))) s else s) ks st)
          = events st
      \<and> collectionTypes (fold (\<lambda>c s. if map_of (collectionTypes s) (JSON_stringify c) = None
              then emit (LogWarn (NotACollection (JSON_stringify c))) s else s) ks st)
          = collectionTypes st" for ks
    by (induction ks arbitrary: st) (simp_all add: manifestWrites_emit)
  then show ?thesis
    by (simp add: warnNonexistentCollections_def)
qed


lemma stateAfter_simps [simp]:
  "stateAfter st [] = st"
  "stateAfter st (step # steps) = stateAfter (fst step) steps"
  by (simp_all add: stateAfter_def)

lemma handled_sequentially_length:
  "handled_sequentially w st evs steps \<Longrightarrow> length steps \<le> length evs"
  by (induction w st evs steps rule: handled_sequentially.induct) simp_all

lemma handled_sequentially_full:
  "handled_sequentially w st evs steps \<Longrightarrow> length steps = length evs \<Longrightarrow>
   handleEvents w st evs = (stateAfter st steps, Inr (map snd steps))"
  by (induction w st evs steps rule: handled_sequentially.induct)
    (auto split: prod.splits)

lemma handled_sequentially_throw:
  "handled_sequentially w st evs steps \<Longrightarrow> length steps < length evs \<Longrightarrow>
   handleEvent w (stateAfter st steps) (type (evs ! length steps)) (opts (evs ! length steps)) = Inl e \<Longrightarrow>
   handleEvents w st evs = (stateAfter st steps, Inl e)"
proof (induction w st evs steps rule: handled_sequentially.induct)
  case (1 w st evs)
  then show ?case by (cases evs) simp_all
next
  case (2 w st step steps)
  then show ?case by simp
next
  case (3 w st ev evs step steps)
  then show ?case by (auto split: prod.splits)
qed

lemma sequential_run_exists:
  "\<exists>steps. handled_sequentially w st evs steps
     \<and> (length steps = length evs
         \<or> (length steps < length evs
             \<and> (\<exists>e. handleEvent w (stateAfter st steps) (type (evs ! length steps))
                         (opts (evs ! length steps)) = Inl e)))"
proof (induction evs arbitrary: st)
  case Nil
  show ?case by (rule exI [of _ "[]"]) simp
next
  case (Cons ev evs)
  show ?case
  proof (cases "handleEvent w st (type ev) (opts ev)")
    case (Inl e)
    then show ?thesis by (intro exI [of _ "[]"]) simp
  next
    case (Inr step)
    from Cons [of "fst step"] obtain steps where
      s: "handled_sequentially w (fst step) evs steps"
         "length steps = length evs
          \<or> (length steps < length evs
              \<and> (\<exists>e. handleEvent w (stateAfter (fst step) steps) (type (evs ! length steps))
                          (opts (evs ! length steps)) = Inl e))"
      by blast
    show ?thesis
      using Inr s by (intro exI [of _ "step # steps"]) auto
  qed
qed

lemma writeContentFiles_outcome:
  "\<exists>st'. writeContentFiles w st cfg =
           (st', (case contentTypesStr w cfg (collectionTypes st) of
                    Inl e \<Rightarrow> Some e
                  | Inr typesStr \<Rightarrow>
                      if \<not> cacheDirExists st \<and> mkdirSync w \<noteq> None then mkdirSync w
                      else writeFile w (manifestText w cfg typesStr)))
      \<and> events st' = events st \<and> collectionTypes st' = collectionTypes st
      \<and> manifestWrites st' = manifestWrites st @
           (case contentTypesStr w cfg (collectionTypes st) of
              Inl e \<Rightarrow> []
            | Inr typesStr \<Rightarrow>
                if \<not> cacheDirExists st \<and> mkdirSync w \<noteq> None then []
                else [manifestText w cfg typesStr])"
  by (auto simp: writeContentFiles_def Let_def manifestWrites_emit split: sum.splits)


lemma runEvents_throwing_handler:
  assumes "handleEvents w st (events st) = (st1, Inl e)"
  shows "runEvents w st opts0 = (st1, Some e)
         \<and> events st1 = events st \<and> manifestWrites st1 = manifestWrites st"
  using assms handleEvents_frame [OF assms] by (simp add: runEvents_def)

lemma runEvents_all_handled:
  assumes "handleEvents w st (events st) = (st1, Inr rs)"
  shows "\<exists>st'. runEvents w st opts0 =
           (st', (if \<not> list_ex shouldGenerateTypes rs then None
                  else (case contentTypesStr w (loadedConfig st1) (collectionTypes st1) of
                          Inl e \<Rightarrow> Some e
                        | Inr typesStr \<Rightarrow>
                            if \<not> cacheDirExists st1 \<and> mkdirSync w \<noteq> None then mkdirSync w
                            else writeFile w (manifestText w (loadedConfig st1) typesStr))))
      \<and> events st' = [] \<and> collectionTypes st' = collectionTypes st1
      \<and> manifestWrites st' = manifestWrites st @
           (if \<not> list_ex shouldGenerateTypes rs then []
            else (case contentTypesStr w (loadedConfig st1) (collectionTypes st1) of
                    Inl e \<Rightarrow> []
                  | Inr typesStr \<Rightarrow>
                      if \<not> cacheDirExists st1 \<and> mkdirSync w \<noteq> None then []
                      else [manifestText w (loadedConfig st1) typesStr]))"
proof -
  note frame = handleEvents_frame [OF assms]
  define level where "level = (case opts0 of None \<Rightarrow> LevelInfo | Some eo \<Rightarrow> logLevel eo)"
  define st3 where "st3 =
    (if unsupportedFilesOf rs \<noteq> [] \<and> level \<in> set [LevelInfo, LevelWarn]
     then emit (LogWarn (UnsupportedFileTypes (unsupportedFilesOf rs))) (st1\<lparr>events := []\<rparr>)
     else st1\<lparr>events := []\<rparr>)"
  have st3: "events st3 = []" "collectionTypes st3 = collectionTypes st1"
    "manifestWrites st3 = manifestWrites st" "loadedConfig st3 = loadedConfig st1"
    "cacheDirExists st3 = cacheDirExists st1"
    using frame by (simp_all add: st3_def manifestWrites_emit loadedConfig_def)
  have run: "runEvents w st opts0 =
    (if list_ex shouldGenerateTypes rs then
       (case writeContentFiles w st3 (loadedConfig st3) of
          (st4, Some e) \<Rightarrow> (st4, Some e)
        | (st4, None) \<Rightarrow>
            (case contentConfigObserver st3 of
               Loaded cfg \<Rightarrow>
                 (if level \<in> set [LevelInfo, LevelWarn]
                  then warnNonexistentCollections cfg st4 else st4, None)
             | _ \<Rightarrow> (st4, None)))
     else (st3, None))"
    unfolding runEvents_def Let_def assms prod.case sum.case st3_def level_def loadedConfig_def
    by (rule refl)
  show ?thesis
  proof (cases "list_ex shouldGenerateTypes rs")
    case False
    then show ?thesis using run st3 by simp
  next
    case True
    from writeContentFiles_outcome [of w st3 "loadedConfig st3"] have
      "\<exists>st4. writeContentFiles w st3 (loadedConfig st1) =
             (st4, (case contentTypesStr w (loadedConfig st1) (collectionTypes st1) of
                      Inl e \<Rightarrow> Some e
                    | Inr typesStr \<Rightarrow>
                        if \<not> cacheDirExists st1 \<and> mkdirSync w \<noteq> None then mkdirSync w
                        else writeFile w (manifestText w (loadedConfig st1) typesStr)))
         \<and> events st4 = [] \<and> collectionTypes st4 = collectionTypes st1
         \<and> manifestWrites st4 = manifestWrites st @
             (case contentTypesStr w (loadedConfig st1) (collectionTypes st1) of
                Inl e \<Rightarrow> []
              | Inr typesStr \<Rightarrow>
                  if \<not> cacheDirExists st1 \<and> mkdirSync w \<noteq> None then []
                  else [manifestText w (loadedConfig st1) typesStr])"
      unfolding st3 .
    then obtain st4 where
      w4: "writeContentFiles w st3 (loadedConfig st1) =
             (st4, (case contentTypesStr w (loadedConfig st1) (collectionTypes st1) of
                      Inl e \<Rightarrow> Some e
                    | Inr typesStr \<Rightarrow>
                        if \<not> cacheDirExists st1 \<and> mkdirSync w \<noteq> None then mkdirSync w
                        else writeFile w (manifestText w (loadedConfig st1) typesStr)))"
      and f4: "events st4 = []" "collectionTypes st4 = collectionTypes st1"
      and m4: "manifestWrites st4 = manifestWrites st @
           (case contentTypesStr w (loadedConfig st1) (collectionTypes st1) of
              Inl e \<Rightarrow> []
            | Inr typesStr \<Rightarrow>
                if \<not> cacheDirExists st1 \<and> mkdirSync w \<noteq> None then []
                else [manifestText w (loadedConfig st1) typesStr])"
      by blast
    define res where "res =
      (case contentTypesStr w (loadedConfig st1) (collectionTypes st1) of
         Inl e \<Rightarrow> Some e
       | Inr typesStr \<Rightarrow>
           if \<not> cacheDirExists st1 \<and> mkdirSync w \<noteq> None then mkdirSync w
           else writeFile w (manifestText w (loadedConfig st1) typesStr))"
    have w4': "writeContentFiles w st3 (loadedConfig st3) = (st4, res)"
      using w4 st3(4) by (simp add: res_def)
    have "\<exists>st'. runEvents w st opts0 = (st', res)
            \<and> events st' = [] \<and> collectionTypes st' = collectionTypes st1
            \<and> manifestWrites st' = manifestWrites st4"
    proof (cases res)
      case None
      then show ?thesis
        using run True w4' f4 warnNonexistentCollections_frame
        by (auto split: ContentObservable.splits)
    next
      case (Some e)
      then show ?thesis
        using run True w4' f4 by simp
    qed
    then show ?thesis
      using True m4 by (simp add: res_def)
  qed
qed

lemmas writer_defs = contentTypesStr_def collectionStr_def entryStr_def dataTypeOf_def
  property_key_def Object_keys_def loadedConfig_def

text \<open>
  C3 (amended). \<open>runEvents\<close> handles the queued events one at a time in queue order,
  the first in the state of the call and each other one in the state that the event
  before it left, until the queue is exhausted or a handler throws. When every handler
  returns, the queue is emptied, the Collection Map is the one the last handler left, and
  the manifest is written if some response asks for a regeneration, and not otherwise:
  \<open>writeFile\<close> is then called exactly once, with the text of that map, unless serialising
  the map or creating the missing cache directory throws, and then it is not called; the
  run ends with the exception of the serialisation, of \<open>mkdirSync\<close> or of \<open>writeFile\<close>
  when there is one. When a handler throws, the run ends with that exception in the state
  the earlier handlers left: the queue is not emptied and no manifest write is made,
  whatever the earlier responses asked for.
\<close>

theorem batch_run_manifest_writes:
  "(\<exists>steps. handled_sequentially w st (events st) steps
      \<and> (length steps = length (events st)
          \<or> (length steps < length (events st)
              \<and> (\<exists>e. handleEvent w (stateAfter st steps) (type (events st ! length steps))
                          (opts (events st ! length steps)) = Inl e))))
   \<and> (\<forall>steps. handled_sequentially w st (events st) steps \<longrightarrow>
         (length steps = length (events st) \<longrightarrow>
            (let st1 = stateAfter st steps; cfg = loadedConfig st1
             in case (if \<not> list_ex shouldGenerateTypes (map snd steps) then ([], None)
                      else (case contentTypesStr w cfg (collectionTypes st1) of
                              Inl e \<Rightarrow> ([], Some e)
                            | Inr typesStr \<Rightarrow>
                                if \<not> cacheDirExists st1 \<and> mkdirSync w \<noteq> None
                                then ([], mkdirSync w)
                                else ([manifestText w cfg typesStr],
                                      writeFile w (manifestText w cfg typesStr)))) of
                  (writes, res) \<Rightarrow>
                    (\<exists>st'. runEvents w st opts0 = (st', res)
                       \<and> events st' = [] \<and> collectionTypes st' = collectionTypes st1
                       \<and> manifestWrites st' = manifestWrites st @ writes)))
         \<and> (\<forall>e. length steps < length (events st)
                 \<and> handleEvent w (stateAfter st steps) (type (events st ! length steps))
                      (opts (events st ! length steps)) = Inl e \<longrightarrow>
                 runEvents w st opts0 = (stateAfter st steps, Some e)
                 \<and> events (stateAfter st steps) = events st
                 \<and> manifestWrites (stateAfter st steps) = manifestWrites st))"
proof (intro conjI allI impI)
  show "\<exists>steps. handled_sequentially w st (events st) steps
      \<and> (length steps = length (events st)
          \<or> (length steps < length (events st)
              \<and> (\<exists>e. handleEvent w (stateAfter st steps) (type (events st ! length steps))
                          (opts (events st ! length steps)) = Inl e)))"
    by (rule sequential_run_exists)
next
  fix steps
  assume seq: "handled_sequentially w st (events st) steps"
    and len: "length steps = length (events st)"
  note all = runEvents_all_handled [OF handled_sequentially_full [OF seq len], of opts0]
  show "let st1 = stateAfter st steps; cfg = loadedConfig st1
        in case (if \<not> list_ex shouldGenerateTypes (map snd steps) then ([], None)
                 else (case contentTypesStr w cfg (collectionTypes st1) of
                         Inl e \<Rightarrow> ([], Some e)
                       | Inr typesStr \<Rightarrow>
                           if \<not> cacheDirExists st1 \<and> mkdirSync w \<noteq> None
                           then ([], mkdirSync w)
                           else ([manifestText w cfg typesStr],
                                 writeFile w (manifestText w cfg typesStr)))) of
             (writes, res) \<Rightarrow>
               (\<exists>st'. runEvents w st opts0 = (st', res)
                  \<and> events st' = [] \<and> collectionTypes st' = collectionTypes st1
                  \<and> manifestWrites st' = manifestWrites st @ writes)"
    unfolding Let_def using all
    by (cases "list_ex shouldGenerateTypes (map snd steps)";
        cases "contentTypesStr w (loadedConfig (stateAfter st steps))
                 (collectionTypes (stateAfter st steps))";
        cases "cacheDirExists (stateAfter st steps)"; cases "mkdirSync w")
       simp_all
next
  fix steps e
  assume seq: "handled_sequentially w st (events st) steps"
    and thr: "length steps < length (events st)
                 \<and> handleEvent w (stateAfter st steps) (type (events st ! length steps))
                      (opts (events st ! length steps)) = Inl e"
  from runEvents_throwing_handler [OF handled_sequentially_throw [OF seq], of e opts0] thr
  show "runEvents w st opts0 = (stateAfter st steps, Some e)"
    and "events (stateAfter st steps) = events st"
    and "manifestWrites (stateAfter st steps) = manifestWrites st"
    by simp_all
qed


theorem batch_run_manifest_writes_witness:
  "handled_sequentially example_world scan_batch (events scan_batch)
     [(scan_batch\<lparr>contentConfigObserver := Loaded \<lparr>collections = [(''blog'', True)]\<rparr>,
         effects := [ObserverSet Loading, LoadContentConfig,
                     ConsoleLog (Some \<lparr>collections = [(''blog'', True)]\<rparr>),
                     ObserverSet (Loaded \<lparr>collections = [(''blog'', True)]\<rparr>)]\<rparr>,
       \<lparr>shouldGenerateTypes = True, error = None\<rparr>),
      (scan_batch\<lparr>collectionTypes := [(JSON_stringify ''blog'',
                       [(JSON_stringify ''post.md'', ContentEntryMetadata ''custom'')])],
         contentConfigObserver := Loaded \<lparr>collections = [(''blog'', True)]\<rparr>,
         effects := [ObserverSet Loading, LoadContentConfig,
                     ConsoleLog (Some \<lparr>collections = [(''blog'', True)]\<rparr>),
                     ObserverSet (Loaded \<lparr>collections = [(''blog'', True)]\<rparr>)]\<rparr>,
       \<lparr>shouldGenerateTypes = True, error = None\<rparr>),
      (scan_batch\<lparr>collectionTypes := [(JSON_stringify ''blog'',
                       [(JSON_stringify ''post.md'', ContentEntryMetadata ''custom'')])],
         contentConfigObserver := Loaded \<lparr>collections = [(''blog'', True)]\<rparr>,
         effects := [ObserverSet Loading, LoadContentConfig,
                     ConsoleLog (Some \<lparr>collections = [(''blog'', True)]\<rparr>),
                     ObserverSet (Loaded \<lparr>collections = [(''blog'', True)]\<rparr>)]\<rparr>,
       \<lparr>shouldGenerateTypes = False, error = None\<rparr>)]
   \<and> (\<exists>st' typesStr.
         runEvents example_world scan_batch None = (st', None)
         \<and> events st' = []
         \<and> collectionTypes st' = [(JSON_stringify ''blog'',
                [(JSON_stringify ''post.md'', ContentEntryMetadata ''custom'')])]
         \<and> contentTypesStr example_world (Some \<lparr>collections = [(''blog'', True)]\<rparr>)
              (collectionTypes st') = Inr typesStr
         \<and> manifestWrites st' =
              [manifestText example_world (Some \<lparr>collections = [(''blog'', True)]\<rparr>) typesStr])
   \<and> (\<exists>st'. runEvents readonly_world scan_batch None
                 = (st', Some (ThrowError (OtherError ''EACCES'')))
         \<and> events st' = []
         \<and> collectionTypes st' = [(JSON_stringify ''blog'',
                [(JSON_stringify ''post.md'', ContentEntryMetadata ''custom'')])]
         \<and> manifestWrites st' = [])
   \<and> runEvents example_world failing_batch None
        = (failing_batch\<lparr>collectionTypes := [(JSON_stringify ''blog'', [])],
                          effects := [LogInfo (CollectionAdded ''blog'')]\<rparr>,
           Some (ThrowError (OtherError ''YAMLException'')))"
proof -
  let ?cfg = "\<lparr>collections = [(''blog'', True)]\<rparr>"
  let ?m = "[(JSON_stringify ''blog'', [(JSON_stringify ''post.md'', ContentEntryMetadata ''custom'')])]"
  let ?eff = "[ObserverSet Loading, LoadContentConfig, ConsoleLog (Some ?cfg),
               ObserverSet (Loaded ?cfg)]"
  let ?s1 = "scan_batch\<lparr>contentConfigObserver := Loaded ?cfg, effects := ?eff\<rparr>"
  let ?s2 = "scan_batch\<lparr>collectionTypes := ?m, contentConfigObserver := Loaded ?cfg,
                         effects := ?eff\<rparr>"
  let ?steps = "[(?s1, \<lparr>shouldGenerateTypes = True, error = None\<rparr>),
                 (?s2, \<lparr>shouldGenerateTypes = True, error = None\<rparr>),
                 (?s2, \<lparr>shouldGenerateTypes = False, error = None\<rparr>)]"
  let ?f1 = "failing_batch\<lparr>collectionTypes := [(JSON_stringify ''blog'', [])],
                           effects := [LogInfo (CollectionAdded ''blog'')]\<rparr>"
  let ?fsteps = "[(?f1, \<lparr>shouldGenerateTypes = True, error = None\<rparr>)]"
  have seq: "handled_sequentially example_world scan_batch (events scan_batch) ?steps"
    by (simp add: example_defs handle_defs handleConfig_def observer_set_def Let_def)
  have seq_ro: "handled_sequentially readonly_world scan_batch (events scan_batch) ?steps"
    by (simp add: example_defs handle_defs handleConfig_def observer_set_def Let_def)
  have len: "length ?steps = length (events scan_batch)"
    by (simp add: example_defs)
  have after: "stateAfter scan_batch ?steps = ?s2"
    by (simp add: stateAfter_def)
  obtain t where t: "contentTypesStr example_world (Some ?cfg) ?m = Inr t"
    by (cases "contentTypesStr example_world (Some ?cfg) ?m") (simp_all add: example_defs writer_defs)
  then have t_ro: "contentTypesStr readonly_world (Some ?cfg) ?m = Inr t"
    by (simp add: example_defs writer_defs)
  have obs: "loadedConfig ?s2 = Some ?cfg" "collectionTypes ?s2 = ?m" "\<not> cacheDirExists ?s2"
    "manifestWrites scan_batch = []" "mkdirSync example_world = None"
    "writeFile example_world = (\<lambda>text. None)"
    "mkdirSync readonly_world = Some (ThrowError (OtherError ''EACCES''))"
    "\<not> cacheDirExists scan_batch"
    by (simp_all add: example_defs loadedConfig_def manifestWrites_def)
  have fseq: "handled_sequentially example_world failing_batch (events failing_batch) ?fsteps"
    by (simp add: example_defs handle_defs Let_def)
  have flen: "length ?fsteps < length (events failing_batch)
      \<and> handleEvent example_world (stateAfter failing_batch ?fsteps)
           (type (events failing_batch ! length ?fsteps))
           (opts (events failing_batch ! length ?fsteps))
         = Inl (ThrowError (OtherError ''YAMLException''))"
    by (simp add: example_defs handle_defs stateAfter_def Let_def)
  have fafter: "stateAfter failing_batch ?fsteps = ?f1"
    by (simp add: stateAfter_def)
  note full = batch_run_manifest_writes [of example_world scan_batch None,
      THEN conjunct2, rule_format, OF seq, THEN conjunct1, rule_format, OF len]
  note full_ro = batch_run_manifest_writes [of readonly_world scan_batch None,
      THEN conjunct2, rule_format, OF seq_ro, THEN conjunct1, rule_format, OF len]
  note thrown = batch_run_manifest_writes [of example_world failing_batch None,
      THEN conjunct2, rule_format, OF fseq, THEN conjunct2, rule_format, OF flen]
  have c2: "\<exists>st' typesStr.
         runEvents example_world scan_batch None = (st', None)
         \<and> events st' = [] \<and> collectionTypes st' = ?m
         \<and> contentTypesStr example_world (Some ?cfg) (collectionTypes st') = Inr typesStr
         \<and> manifestWrites st' = [manifestText example_world (Some ?cfg) typesStr]"
    using full t unfolding after Let_def obs by auto
  have c3: "\<exists>st'. runEvents readonly_world scan_batch None
                 = (st', Some (ThrowError (OtherError ''EACCES'')))
         \<and> events st' = [] \<and> collectionTypes st' = ?m \<and> manifestWrites st' = []"
    using full_ro t_ro obs(8) unfolding after Let_def obs by auto
  have c4: "runEvents example_world failing_batch None
        = (?f1, Some (ThrowError (OtherError ''YAMLException'')))"
    using thrown unfolding fafter by simp
  show ?thesis
    using seq c2 c3 c4 by blast
qed

text \<open>
  The claim as first stated fails on a batch whose first event asks for a regeneration and
  whose second event throws: no manifest write is made.
\<close>

theorem batch_with_throwing_handler_counterexample:
  "handleEvent example_world failing_batch \<lparr>name = AddDir, entry = ''blog''\<rparr> None
     = Inr (failing_batch\<lparr>collectionTypes := [(JSON_stringify ''blog'', [])],
                          effects := [LogInfo (CollectionAdded ''blog'')]\<rparr>,
            \<lparr>shouldGenerateTypes = True, error = None\<rparr>)
   \<and> runEvents example_world failing_batch None
     = (failing_batch\<lparr>collectionTypes := [(JSON_stringify ''blog'', [])],
                       effects := [LogInfo (CollectionAdded ''blog'')]\<rparr>,
        Some (ThrowError (OtherError ''YAMLException'')))
   \<and> manifestWrites (failing_batch\<lparr>collectionTypes := [(JSON_stringify ''blog'', [])],
                       effects := [LogInfo (CollectionAdded ''blog'')]\<rparr>) = []"
  by (simp add: example_defs handle_defs runEvents_def manifestWrites_def Let_def)

subsection \<open>The manifest writer\<close>

lemma sort_keys_unique:
  assumes "distinct ks" and "distinct ks'" and "set ks = set ks'"
  shows "sort ks = sort (ks' :: string list)"
  using assms by (intro sorted_distinct_set_unique) simp_all

lemma same_object_keys: "same_object sv obj obj' \<Longrightarrow> sort (Object_keys obj) = sort (Object_keys obj')"
  by (simp add: same_object_def sort_keys_unique)

lemma same_object_lookup:
  assumes "same_object sv obj obj'" and "k \<in> set (Object_keys obj)"
  shows "\<exists>v v'. map_of obj k = Some v \<and> map_of obj' k = Some v' \<and> sv v v'"
proof -
  have "case (map_of obj k, map_of obj' k) of (Some v, Some v') \<Rightarrow> sv v v' | _ \<Rightarrow> False"
    using assms by (simp add: same_object_def list_all_iff)
  then show ?thesis
    by (cases "map_of obj k"; cases "map_of obj' k") simp_all
qed

lemma same_object_eq_map_of:
  assumes "same_object (=) es es'"
  shows "map_of es = map_of es'"
proof
  fix k
  show "map_of es k = map_of es' k"
  proof (cases "k \<in> set (Object_keys es)")
    case True
    then show ?thesis using same_object_lookup [OF assms] by fastforce
  next
    case False
    then have "k \<notin> set (Object_keys es')" using assms by (simp add: same_object_def)
    then have "map_of es k = None" "map_of es' k = None"
      using False by (simp_all add: Object_keys_def map_of_eq_None_iff)
    then show ?thesis by simp
  qed
qed

lemma entriesStr_cong:
  "map_of es = map_of es' \<Longrightarrow> entriesStr w ck cc es ks = entriesStr w ck cc es' ks"
  by (induction ks) (simp_all split: option.splits sum.splits)

lemma collectionStr_cong:
  assumes "same_collections m m'" and "k \<in> set (Object_keys m)"
  shows "collectionStr w cfg m k = collectionStr w cfg m' k"
proof -
  obtain es es' where l: "map_of m k = Some es" "map_of m' k = Some es'" "same_object (=) es es'"
    using same_object_lookup [OF assms [unfolded same_collections_def]] by blast
  have "sort (Object_keys es) = sort (Object_keys es')"
    using l(3) by (rule same_object_keys)
  moreover have "map_of es = map_of es'"
    using l(3) by (rule same_object_eq_map_of)
  ultimately show ?thesis
    using l(1,2) by (simp add: collectionStr_def entriesStr_cong [of es es'] split: sum.splits)
qed

lemma collectionsStr_cong:
  "(\<And>k. k \<in> set ks \<Longrightarrow> collectionStr w cfg m k = collectionStr w cfg m' k) \<Longrightarrow>
   collectionsStr w cfg m ks = collectionsStr w cfg m' ks"
  by (induction ks) (simp_all split: sum.splits)

lemma contentTypesStr_cong:
  assumes "same_collections m m'"
  shows "contentTypesStr w cfg m = contentTypesStr w cfg m'"
proof -
  have "sort (Object_keys m) = sort (Object_keys m')"
    using assms by (simp add: same_collections_def same_object_keys)
  moreover have "collectionsStr w cfg m (sort (Object_keys m))
                   = collectionsStr w cfg m' (sort (Object_keys m))"
    by (rule collectionsStr_cong) (simp add: collectionStr_cong [OF assms])
  ultimately show ?thesis
    by (simp add: contentTypesStr_def)
qed

lemma collectionsStr_blocks:
  "collectionsStr w cfg m ks = Inr t \<Longrightarrow>
   \<exists>blocks. list_all2 (\<lambda>k b. collectionStr w cfg m k = Inr b) ks blocks \<and> t = concat blocks"
proof (induction ks arbitrary: t)
  case Nil
  then show ?case by simp
next
  case (Cons k ks)
  then obtain b rest where
    b: "collectionStr w cfg m k = Inr b" "collectionsStr w cfg m ks = Inr rest" "t = b @ rest"
    by (auto split: sum.splits)
  from Cons.IH [OF b(2)] obtain blocks where
    "list_all2 (\<lambda>k b. collectionStr w cfg m k = Inr b) ks blocks" "rest = concat blocks"
    by blast
  then show ?case
    using b by (intro exI [of _ "b # blocks"]) simp
qed

lemma entriesStr_blocks:
  "entriesStr w ck cc es ks = Inr t \<Longrightarrow>
   \<exists>blocks. list_all2 (\<lambda>k b. \<exists>md. map_of es k = Some md \<and> entryStr w ck cc k md = Inr b) ks blocks
            \<and> t = concat blocks"
proof (induction ks arbitrary: t)
  case Nil
  then show ?case by simp
next
  case (Cons k ks)
  then obtain md b rest where
    b: "map_of es k = Some md" "entryStr w ck cc k md = Inr b"
       "entriesStr w ck cc es ks = Inr rest" "t = b @ rest"
    by (auto split: sum.splits option.splits)
  from Cons.IH [OF b(3)] obtain blocks where
    "list_all2 (\<lambda>k b. \<exists>md. map_of es k = Some md \<and> entryStr w ck cc k md = Inr b) ks blocks"
    "rest = concat blocks"
    by blast
  then show ?case
    using b by (intro exI [of _ "b # blocks"]) simp
qed

text \<open>
  C4 (amended). The manifest writer emits the collections in the ascending lexicographic
  order of their keys in the Collection Map, which are the JSON-quoted collection names,
  and the entries of each collection in the ascending lexicographic order of their keys,
  the JSON-quoted entry ids: the text is the concatenation of the collections' blocks in
  that order, and each block holds the entries' blocks in that order. So two Collection
  Maps with the same contents, whatever the order in which collections and entries were
  inserted, give the same text (or the same exception) with the same config.
\<close>

theorem manifest_deterministic_in_key_order:
  assumes "same_collections m m'"
  shows "contentTypesStr w cfg m = contentTypesStr w cfg m'
     \<and> map_prod manifestWrites id (writeContentFiles w (st\<lparr>collectionTypes := m\<rparr>) cfg)
         = map_prod manifestWrites id (writeContentFiles w (st\<lparr>collectionTypes := m'\<rparr>) cfg)
     \<and> (\<forall>t. contentTypesStr w cfg m = Inr t \<longrightarrow>
           (\<exists>blocks. list_all2 (\<lambda>k b. collectionStr w cfg m k = Inr b)
                        (sort (Object_keys m)) blocks
                    \<and> t = concat blocks))
     \<and> (\<forall>k es b. map_of m k = Some es \<and> collectionStr w cfg m k = Inr b \<longrightarrow>
           (\<exists>cc blocks. list_all2 (\<lambda>ek eb. \<exists>md. map_of es ek = Some md
                                         \<and> entryStr w k cc ek md = Inr eb)
                           (sort (Object_keys es)) blocks
                       \<and> b = k @ '': {'' @ [CHR 0x0A] @ concat blocks @ ''},'' @ [CHR 0x0A]))"
proof (intro conjI allI impI)
  show eq: "contentTypesStr w cfg m = contentTypesStr w cfg m'"
    using assms by (rule contentTypesStr_cong)
  show "map_prod manifestWrites id (writeContentFiles w (st\<lparr>collectionTypes := m\<rparr>) cfg)
         = map_prod manifestWrites id (writeContentFiles w (st\<lparr>collectionTypes := m'\<rparr>) cfg)"
    using eq by (simp add: writeContentFiles_def Let_def manifestWrites_emit split: sum.splits)
next
  fix t assume "contentTypesStr w cfg m = Inr t"
  then show "\<exists>blocks. list_all2 (\<lambda>k b. collectionStr w cfg m k = Inr b)
                        (sort (Object_keys m)) blocks \<and> t = concat blocks"
    unfolding contentTypesStr_def by (rule collectionsStr_blocks)
next
  fix k es b assume a: "map_of m k = Some es \<and> collectionStr w cfg m k = Inr b"
  then obtain cc body where
    body: "entriesStr w k cc es (sort (Object_keys es)) = Inr body"
          "b = k @ '': {'' @ [CHR 0x0A] @ body @ ''},'' @ [CHR 0x0A]"
    by (auto simp: collectionStr_def split: sum.splits option.splits)
  from entriesStr_blocks [OF body(1)] body(2)
  show "\<exists>cc blocks. list_all2 (\<lambda>ek eb. \<exists>md. map_of es ek = Some md
                                         \<and> entryStr w k cc ek md = Inr eb)
                           (sort (Object_keys es)) blocks
                       \<and> b = k @ '': {'' @ [CHR 0x0A] @ concat blocks @ ''},'' @ [CHR 0x0A]"
    by blast
qed

theorem manifest_deterministic_in_key_order_witness:
  "same_collections (collectionTypes tracked_generator) reordered_collections
   \<and> collectionTypes tracked_generator \<noteq> reordered_collections
   \<and> contentTypesStr example_world None (collectionTypes tracked_generator)
       = contentTypesStr example_world None reordered_collections"
proof -
  have h: "same_collections (collectionTypes tracked_generator) reordered_collections"
    by (auto simp: same_collections_def same_object_def tracked_generator_def
        reordered_collections_def Object_keys_def)
  have n: "collectionTypes tracked_generator \<noteq> reordered_collections"
    by (simp add: tracked_generator_def reordered_collections_def)
  from manifest_deterministic_in_key_order [OF h, of example_world None] h n
  show ?thesis by simp
qed

text \<open>
  The claim as first stated fails for the collections \<open>docs\<close> and \<open>docs old\<close>:
  the name \<open>docs\<close> is the smaller one, but the manifest lists \<open>docs old\<close> first,
  because in the quoted names the space is compared with the closing quote.
\<close>

theorem manifest_not_in_name_order_counterexample:
  "''docs'' < ''docs old''
   \<and> manifestWrites (fst (runEvents example_world dirs_batch None))
       = [''type Entries = { '' @ JSON_stringify ''docs old'' @ '': {'' @ [CHR 0x0A] @ ''},''
          @ [CHR 0x0A] @ JSON_stringify ''docs'' @ '': {'' @ [CHR 0x0A] @ ''},'' @ [CHR 0x0A] @ '' }'']"
  by (simp add: example_defs handle_defs runEvents_def writeContentFiles_def
      manifestText_def withModuleTypes_def js_replace_def manifestWrites_def writer_defs Let_def
      JSON_stringify_def quote_char_def unsupportedFilesOf_def)

subsection \<open>Asset propagation\<close>

lemma set_add_props: "set (set_add x xs) = insert x (set xs)" "distinct xs \<Longrightarrow> distinct (set_add x xs)"
  by (auto simp: set_add_def)

lemma set_add_all_props:
  "set (set_add_all vs xs) = set vs \<union> set xs"
  "distinct xs \<Longrightarrow> distinct (set_add_all vs xs)"
  unfolding set_add_all_def
  by (induction vs arbitrary: xs) (auto simp: set_add_props)

lemma collectFromPage_props:
  assumes "collectFromPage bw id0 pageInfo (css, scripts) = (css', scripts')"
  shows "set css' = set css \<union> stylesOf bw id0 pageInfo"
    and "set scripts' = set scripts \<union> scriptsOf bw id0 pageInfo"
    and "distinct css \<Longrightarrow> distinct css'"
    and "distinct scripts \<Longrightarrow> distinct scripts'"
  using assms
  by (auto simp: collectFromPage_def stylesOf_def scriptsOf_def set_add_all_props
      split: if_splits option.splits)

lemma collectFromModule_props:
  assumes "collectFromModule bw id0 (css, scripts) = (css', scripts')"
  shows "set css' = set css \<union> (\<Union>pageInfo \<in> set (walkParentInfos bw id0). stylesOf bw id0 pageInfo)"
    and "set scripts' = set scripts \<union> (\<Union>pageInfo \<in> set (walkParentInfos bw id0). scriptsOf bw id0 pageInfo)"
    and "distinct css \<Longrightarrow> distinct css'"
    and "distinct scripts \<Longrightarrow> distinct scripts'"
proof -
  have "fold (collectFromPage bw id0) infos (css, scripts) = (css', scripts') \<Longrightarrow>
        set css' = set css \<union> (\<Union>pageInfo \<in> set infos. stylesOf bw id0 pageInfo)
        \<and> set scripts' = set scripts \<union> (\<Union>pageInfo \<in> set infos. scriptsOf bw id0 pageInfo)
        \<and> (distinct css \<longrightarrow> distinct css') \<and> (distinct scripts \<longrightarrow> distinct scripts')"
    for infos
  proof (induction infos arbitrary: css scripts)
    case Nil
    then show ?case by simp
  next
    case (Cons info infos)
    obtain c1 s1 where step: "collectFromPage bw id0 info (css, scripts) = (c1, s1)"
      by (cases "collectFromPage bw id0 info (css, scripts)")
    with Cons.prems have "fold (collectFromPage bw id0) infos (c1, s1) = (css', scripts')"
      by simp
    from Cons.IH [OF this] collectFromPage_props [OF step]
    show ?case by auto
  qed
  from this [of "walkParentInfos bw id0"] assms
  show "set css' = set css \<union> (\<Union>pageInfo \<in> set (walkParentInfos bw id0). stylesOf bw id0 pageInfo)"
    and "set scripts' = set scripts \<union> (\<Union>pageInfo \<in> set (walkParentInfos bw id0). scriptsOf bw id0 pageInfo)"
    and "distinct css \<Longrightarrow> distinct css'"
    and "distinct scripts \<Longrightarrow> distinct scripts'"
    by (simp_all add: collectFromModule_def)
qed

lemma collectAssets_props:
  assumes "collectAssets bw chunk = (entryCSS, entryScripts)"
  shows "distinct entryCSS \<and> distinct entryScripts
     \<and> set entryCSS = (\<Union>id0 \<in> set (modules chunk).
                          \<Union>pageInfo \<in> set (walkParentInfos bw id0). stylesOf bw id0 pageInfo)
     \<and> set entryScripts = (\<Union>id0 \<in> set (modules chunk).
                          \<Union>pageInfo \<in> set (walkParentInfos bw id0). scriptsOf bw id0 pageInfo)"
proof -
  have "fold (collectFromModule bw) ids (css, scripts) = (css', scripts') \<Longrightarrow>
        set css' = set css \<union> (\<Union>id0 \<in> set ids.
                          \<Union>pageInfo \<in> set (walkParentInfos bw id0). stylesOf bw id0 pageInfo)
        \<and> set scripts' = set scripts \<union> (\<Union>id0 \<in> set ids.
                          \<Union>pageInfo \<in> set (walkParentInfos bw id0). scriptsOf bw id0 pageInfo)
        \<and> (distinct css \<longrightarrow> distinct css') \<and> (distinct scripts \<longrightarrow> distinct scripts')"
    for ids css scripts css' scripts'
  proof (induction ids arbitrary: css scripts)
    case Nil
    then show ?case by simp
  next
    case (Cons i ids)
    obtain c1 s1 where step: "collectFromModule bw i (css, scripts) = (c1, s1)"
      by (cases "collectFromModule bw i (css, scripts)")
    with Cons.prems have "fold (collectFromModule bw) ids (c1, s1) = (css', scripts')"
      by simp
    from Cons.IH [OF this] collectFromModule_props [OF step]
    show ?case by auto
  qed
  from this [of "modules chunk" "[]" "[]" entryCSS entryScripts] assms
  show ?thesis by (simp add: collectAssets_def)
qed

lemma entryFileNamesOf_distinct: "distinct (entryFileNamesOf entryScripts clientOutputs)"
proof -
  have per_chunk: "distinct names \<Longrightarrow> distinct (clientChunkNames entryScripts c names)" for c names
  proof -
    have "distinct names \<Longrightarrow>
          distinct (fold (\<lambda>id0 names. if id0 \<in> set entryScripts
                              then set_add (fileName c) names else names) ids names)" for ids
      by (induction ids arbitrary: names) (simp_all add: set_add_props)
    then show "distinct names \<Longrightarrow> distinct (clientChunkNames entryScripts c names)"
      by (simp add: clientChunkNames_def)
  qed
  have per_output: "distinct names \<Longrightarrow> distinct (fold (clientChunkNames entryScripts) out names)"
    for out names
    by (induction out arbitrary: names) (simp_all add: per_chunk)
  have "distinct names \<Longrightarrow>
        distinct (fold (\<lambda>output names. fold (clientChunkNames entryScripts) output names) outs names)"
    for outs names
    by (induction outs arbitrary: names) (simp_all add: per_output)
  then show ?thesis
    by (simp add: entryFileNamesOf_def)
qed

lemma find_first_split:
  "find_first pat s = Some (pre, post) \<Longrightarrow> s = pre @ pat @ post"
proof (induction s arbitrary: pre)
  case Nil
  then show ?case by (simp split: if_splits)
next
  case (Cons c cs)
  show ?case
  proof (cases "prefix pat (c # cs)")
    case True
    then show ?thesis
      using Cons.prems by (auto simp: prefix_def)
  next
    case False
    then obtain pre1 where "find_first pat cs = Some (pre1, post)" "pre = c # pre1"
      using Cons.prems by (auto split: option.splits)
    then show ?thesis
      using Cons.IH by simp
  qed
qed

lemma find_first_least:
  "find_first pat s = Some (pre, post) \<Longrightarrow> s = pre' @ pat @ post' \<Longrightarrow> length pre \<le> length pre'"
proof (induction s arbitrary: pre pre')
  case Nil
  then show ?case by (simp split: if_splits)
next
  case (Cons c cs)
  show ?case
  proof (cases "prefix pat (c # cs)")
    case True
    then have "pre = []" using Cons.prems(1) by simp
    then show ?thesis by simp
  next
    case False
    then obtain pre1 where p: "find_first pat cs = Some (pre1, post)" "pre = c # pre1"
      using Cons.prems(1) by (auto split: option.splits)
    have "pre' \<noteq> []"
      using False Cons.prems(2) by (auto simp: prefix_def)
    then obtain pre1' where "pre' = c # pre1'" "cs = pre1' @ pat @ post'"
      using Cons.prems(2) by (cases pre') auto
    then show ?thesis
      using Cons.IH [OF p(1)] p(2) by simp
  qed
qed

lemma find_first_exists:
  "s = pre' @ pat @ post' \<Longrightarrow> \<exists>pre post. find_first pat s = Some (pre, post)"
proof (induction s arbitrary: pre')
  case Nil
  then show ?case by simp
next
  case (Cons c cs)
  show ?case
  proof (cases "prefix pat (c # cs)")
    case True
    then show ?thesis by simp
  next
    case False
    have "pre' \<noteq> []"
      using False Cons.prems by (auto simp: prefix_def)
    then obtain pre1' where "cs = pre1' @ pat @ post'"
      using Cons.prems by (cases pre') auto
    from Cons.IH [OF this] show ?thesis
      using False by auto
  qed
qed

lemma find_first_Some_iff:
  "find_first pat s = Some (pre, post) \<longleftrightarrow>
     s = pre @ pat @ post
     \<and> (\<forall>pre' post'. s = pre' @ pat @ post' \<longrightarrow> length pre \<le> length pre')"
proof
  assume f: "find_first pat s = Some (pre, post)"
  have "s = pre @ pat @ post"
    using f by (rule find_first_split)
  moreover have "length pre \<le> length pre'" if "s = pre' @ pat @ post'" for pre' post'
    using f that by (rule find_first_least)
  ultimately show "s = pre @ pat @ post
     \<and> (\<forall>pre' post'. s = pre' @ pat @ post' \<longrightarrow> length pre \<le> length pre')"
    by simp
next
  assume a: "s = pre @ pat @ post
     \<and> (\<forall>pre' post'. s = pre' @ pat @ post' \<longrightarrow> length pre \<le> length pre')"
  then have s0: "s = pre @ pat @ post" by simp
  from find_first_exists [OF s0] obtain p q where f: "find_first pat s = Some (p, q)"
    by blast
  have s: "s = p @ pat @ q" using f by (rule find_first_split)
  have "length p \<le> length pre" using f s0 by (rule find_first_least)
  moreover have "length pre \<le> length p"
  proof -
    from a have "\<forall>pre' post'. s = pre' @ pat @ post' \<longrightarrow> length pre \<le> length pre'" ..
    then show ?thesis using s by blast
  qed
  ultimately have len: "length p = length pre" by simp
  have "p @ (pat @ q) = pre @ (pat @ post)" using s s0 by simp
  then have "p = pre \<and> q = post"
    using len by simp
  then show "find_first pat s = Some (pre, post)"
    using f by simp
qed

lemma js_includes_iff: "js_includes s pat \<longleftrightarrow> (\<exists>pre post. s = pre @ pat @ post)"
  unfolding js_includes_def
  using find_first_exists find_first_split by (metis not_Some_eq surj_pair)

lemma getSubstitution_plain:
  "CHR ''$'' \<notin> set r \<Longrightarrow> getSubstitution m pre post r = r"
  by (induction m pre post r rule: getSubstitution.induct) auto

lemma js_replace_first:
  assumes "s = pre @ pat @ post"
      and "\<forall>pre' post'. s = pre' @ pat @ post' \<longrightarrow> length pre \<le> length pre'"
      and "CHR ''$'' \<notin> set r"
  shows "js_replace s pat r = pre @ r @ post"
proof -
  have "find_first pat s = Some (pre, post)"
    using assms(1,2) by (simp add: find_first_Some_iff)
  then show ?thesis
    using assms(3) by (simp add: js_replace_def getSubstitution_plain)
qed

lemma js_replace_absent:
  "\<not> js_includes s pat \<Longrightarrow> js_replace s pat r = s"
  by (cases "find_first pat s") (simp_all add: js_includes_def js_replace_def)

lemmas build_defs = example_build_world_def links_chunk_def single_quoted_chunk_def
  hasPlaceholder_def js_includes_def collectAssets_def collectFromModule_def collectFromPage_def
  map_get_def set_add_all_def set_add_def newCodeOf_def replaceLinks_def replaceScripts_def
  js_replace_def linksJSON_def JSON_array_def prependBase_def JSON_stringify_def quote_char_def

text \<open>
  What holds of every chunk: the two accumulators, and the set of client file names,
  hold each value once; the accumulators are the unions of what the pages reached from
  the chunk's modules contribute; the new code is the chunk's code after the two
  replacements.
\<close>

lemma asset_accumulators_are_sets:
  assumes "collectAssets bw chunk = (entryCSS, entryScripts)"
  shows "distinct entryCSS \<and> distinct entryScripts
     \<and> distinct (entryFileNamesOf entryScripts clientOutputs)
     \<and> set entryCSS = (\<Union>id0 \<in> set (modules chunk).
                          \<Union>pageInfo \<in> set (walkParentInfos bw id0). stylesOf bw id0 pageInfo)
     \<and> set entryScripts = (\<Union>id0 \<in> set (modules chunk).
                          \<Union>pageInfo \<in> set (walkParentInfos bw id0). scriptsOf bw id0 pageInfo)
     \<and> newCodeOf bw clientOutputs chunk
         = replaceScripts bw clientOutputs entryScripts (replaceLinks bw entryCSS (code chunk))"
  using collectAssets_props [OF assms] assms
  by (simp add: entryFileNamesOf_distinct newCodeOf_def)

text \<open>
  A replacement leaves the code as it is when its accumulator is empty, and also when
  the code does not contain the token between double quotes. Otherwise it replaces the
  first occurrence of the quoted token, and only that one, by the JSON text, provided the
  JSON text has no dollar sign.
\<close>

lemma replaceLinks_cases:
  "replaceLinks bw [] c = c"
  "\<not> js_includes c (JSON_stringify (LINKS_PLACEHOLDER bw)) \<Longrightarrow> replaceLinks bw entryCSS c = c"
  "entryCSS \<noteq> [] \<Longrightarrow> c = pre @ JSON_stringify (LINKS_PLACEHOLDER bw) @ post \<Longrightarrow>
   \<forall>pre' post'. c = pre' @ JSON_stringify (LINKS_PLACEHOLDER bw) @ post' \<longrightarrow> length pre \<le> length pre' \<Longrightarrow>
   CHR ''$'' \<notin> set (linksJSON bw entryCSS) \<Longrightarrow>
   replaceLinks bw entryCSS c = pre @ linksJSON bw entryCSS @ post"
  by (simp_all add: replaceLinks_def js_replace_absent js_replace_first)

lemma replaceScripts_cases:
  "replaceScripts bw cos [] c = c"
  "\<not> js_includes c (JSON_stringify (SCRIPTS_PLACEHOLDER bw)) \<Longrightarrow> replaceScripts bw cos entryScripts c = c"
  "entryScripts \<noteq> [] \<Longrightarrow> c = pre @ JSON_stringify (SCRIPTS_PLACEHOLDER bw) @ post \<Longrightarrow>
   \<forall>pre' post'. c = pre' @ JSON_stringify (SCRIPTS_PLACEHOLDER bw) @ post' \<longrightarrow> length pre \<le> length pre' \<Longrightarrow>
   CHR ''$'' \<notin> set (scriptsJSON bw (entryFileNamesOf entryScripts cos)) \<Longrightarrow>
   replaceScripts bw cos entryScripts c = pre @ scriptsJSON bw (entryFileNamesOf entryScripts cos) @ post"
  by (simp_all add: replaceScripts_def js_replace_absent js_replace_first)

text \<open>
  The scenario of the specification: the page is reached three ways, the style is
  collected once and the placeholder is replaced by \<open>["/a.css"]\<close>.
\<close>

lemma spec_scenario:
  "hasPlaceholder (example_build_world [''/a.css'']) links_chunk
   \<and> collectAssets (example_build_world [''/a.css'']) links_chunk = ([''/a.css''], [])
   \<and> newCodeOf (example_build_world [''/a.css'']) [] links_chunk
       = ''const collectedLinks = ['' @ JSON_stringify ''/a.css'' @ ''];''"
  by (simp add: build_defs)

text \<open>
  C9. The claim says that the placeholder is replaced by the JSON array of the collected
  references. \<open>String.prototype.replace\<close> expands dollar patterns in the replacement
  text, so for the style \<open>/_astro/post.a$$b.css\<close> the chunk receives
  \<open>["/_astro/post.a$b.css"]\<close>, which is not the JSON array of the accumulator.
\<close>

theorem placeholder_replacement_expands_dollar_patterns:
  "hasPlaceholder (example_build_world [''/_astro/post.a$$b.css'']) links_chunk
   \<and> collectAssets (example_build_world [''/_astro/post.a$$b.css'']) links_chunk
       = ([''/_astro/post.a$$b.css''], [])
   \<and> linksJSON (example_build_world [''/_astro/post.a$$b.css'']) [''/_astro/post.a$$b.css'']
       = ''['' @ JSON_stringify ''/_astro/post.a$$b.css'' @ '']''
   \<and> newCodeOf (example_build_world [''/_astro/post.a$$b.css'']) [] links_chunk
       = ''const collectedLinks = ['' @ JSON_stringify ''/_astro/post.a$b.css'' @ ''];''"
  by (simp add: build_defs)

text \<open>
  The test for a placeholder looks for the bare token and the replacement for the token
  between double quotes: a chunk that holds the token between single quotes passes the
  test, has a style to insert, and is left as it is.
\<close>

lemma single_quoted_placeholder_stays:
  "hasPlaceholder (example_build_world [''/a.css'']) single_quoted_chunk
   \<and> collectAssets (example_build_world [''/a.css'']) single_quoted_chunk = ([''/a.css''], [])
   \<and> newCodeOf (example_build_world [''/a.css'']) [] single_quoted_chunk
       = code single_quoted_chunk"
  by (simp add: build_defs)

subsection \<open>Maps built by the handlers serialise\<close>

text \<open>
  The handlers keep the keys of the Collection Map quoted, the empty map has quoted keys,
  and a map with quoted keys is serialised without an exception.
\<close>

lemma quoted_keys_Nil: "quoted_keys []"
  by (simp add: quoted_keys_def Object_keys_def)

lemma values_update: "set (map snd (AList.update k v al)) \<subseteq> insert v (set (map snd al))"
  by (induction al) auto

lemma values_delete: "set (map snd (AList.delete k al)) \<subseteq> set (map snd al)"
  by (auto simp: AList.delete_eq)

lemma keys_update: "set (Object_keys (AList.update k v al)) = insert k (set (Object_keys al))"
  by (simp add: Object_keys_def dom_update)

lemma keys_delete: "set (Object_keys (AList.delete k al)) \<subseteq> set (Object_keys al)"
  by (auto simp: Object_keys_def AList.delete_eq)

lemma quoted_entries_update:
  "quoted_entries es \<Longrightarrow> quoted_entries (AList.update (JSON_stringify i) md es)"
  by (simp add: quoted_entries_def keys_update)

lemma quoted_entries_delete: "quoted_entries es \<Longrightarrow> quoted_entries (AList.delete ek es)"
  unfolding quoted_entries_def using keys_delete [of ek es] by blast

lemma quoted_entries_Nil: "quoted_entries []"
  by (simp add: quoted_entries_def Object_keys_def)

lemma quoted_keys_update:
  assumes "quoted_keys m" and "quoted_entries es"
  shows "quoted_keys (AList.update (JSON_stringify c) es m)"
proof -
  have "set (Object_keys (AList.update (JSON_stringify c) es m)) \<subseteq> range JSON_stringify"
    using assms(1) by (simp add: keys_update quoted_keys_def)
  moreover have "quoted_entries es'" if "es' \<in> set (map snd (AList.update (JSON_stringify c) es m))"
    for es'
  proof -
    from that values_update [of "JSON_stringify c" es m]
    have "es' = es \<or> es' \<in> set (map snd m)" by blast
    then show ?thesis
      using assms unfolding quoted_keys_def by blast
  qed
  ultimately show ?thesis
    unfolding quoted_keys_def by blast
qed

lemma quoted_keys_lookup:
  assumes "quoted_keys m" and "map_of m ck = Some es"
  shows "ck \<in> range JSON_stringify" and "quoted_entries es"
proof -
  have "(ck, es) \<in> set m" using assms(2) by (rule map_of_SomeD)
  then have "ck \<in> set (Object_keys m)" and "es \<in> set (map snd m)"
    by (force simp: Object_keys_def)+
  then show "ck \<in> range JSON_stringify" and "quoted_entries es"
    using assms(1) unfolding quoted_keys_def by blast+
qed

lemma quoted_keys_addCollection:
  "quoted_keys m \<Longrightarrow> quoted_keys (addCollection m (JSON_stringify c))"
  unfolding addCollection_def by (rule quoted_keys_update) (simp_all add: quoted_entries_Nil)

lemma quoted_keys_removeCollection:
  "quoted_keys m \<Longrightarrow> quoted_keys (removeCollection m ck)"
  unfolding quoted_keys_def removeCollection_def
  using keys_delete [of ck m] values_delete [of ck m] by blast

lemma quoted_keys_setEntry:
  assumes "quoted_keys m" and "setEntry m ck (JSON_stringify i) md = Inr m'"
  shows "quoted_keys m'"
proof -
  obtain es where es: "map_of m ck = Some es"
    and m': "m' = AList.update ck (AList.update (JSON_stringify i) md es) m"
    using assms(2) by (auto simp: setEntry_def split: option.splits)
  obtain c where c: "ck = JSON_stringify c"
    using quoted_keys_lookup(1) [OF assms(1) es] by auto
  have "quoted_entries (AList.update (JSON_stringify i) md es)"
    using quoted_keys_lookup(2) [OF assms(1) es] by (rule quoted_entries_update)
  then show ?thesis
    unfolding m' c using assms(1) by (intro quoted_keys_update)
qed

lemma quoted_keys_removeEntry:
  assumes "quoted_keys m" and "removeEntry m ck ek = Inr m'"
  shows "quoted_keys m'"
proof -
  obtain es where es: "map_of m ck = Some es"
    and m': "m' = AList.update ck (AList.delete ek es) m"
    using assms(2) by (auto simp: removeEntry_def split: option.splits)
  obtain c where c: "ck = JSON_stringify c"
    using quoted_keys_lookup(1) [OF assms(1) es] by auto
  have "quoted_entries (AList.delete ek es)"
    using quoted_keys_lookup(2) [OF assms(1) es] by (rule quoted_entries_delete)
  then show ?thesis
    unfolding m' c using assms(1) by (intro quoted_keys_update)
qed

lemma quoted_keys_addEntryIfAbsent:
  assumes "quoted_keys (collectionTypes st)"
      and "addEntryIfAbsent st (JSON_stringify c) (JSON_stringify i) md = Inr (st', r)"
  shows "quoted_keys (collectionTypes st')"
proof -
  define m1 where "m1 = (if \<not> js_in (JSON_stringify c) (collectionTypes st)
             then addCollection (collectionTypes st) (JSON_stringify c) else collectionTypes st)"
  have m1: "quoted_keys m1"
    using assms(1) by (simp add: m1_def quoted_keys_addCollection)
  have "collectionTypes st' = m1
        \<or> setEntry m1 (JSON_stringify c) (JSON_stringify i) md = Inr (collectionTypes st')"
    using assms(2) unfolding addEntryIfAbsent_def Let_def m1_def [symmetric]
    by (auto simp: reply_def split: option.splits if_splits sum.splits)
  then show ?thesis
    using m1 quoted_keys_setEntry [OF m1] by blast
qed

lemma quoted_keys_unlinkEntry:
  assumes "quoted_keys (collectionTypes st)" and "unlinkEntry st ck ek = Inr (st', r)"
  shows "quoted_keys (collectionTypes st')"
proof -
  have "collectionTypes st' = collectionTypes st
        \<or> removeEntry (collectionTypes st) ck ek = Inr (collectionTypes st')"
    using assms(2)
    by (auto simp: unlinkEntry_def reply_def split: option.splits if_splits sum.splits)
  then show ?thesis
    using assms(1) quoted_keys_removeEntry [OF assms(1)] by auto
qed

lemma quoted_keys_handleContentEntry:
  assumes "quoted_keys (collectionTypes st)"
      and "handleContentEntry w st event collection = Inr (st', r)"
  shows "quoted_keys (collectionTypes st')"
proof -
  obtain id0 slug0 where ids: "getContentEntryIdAndSlug w (entry event) collection = (id0, slug0)"
    by (cases "getContentEntryIdAndSlug w (entry event) collection")
  let ?ck = "JSON_stringify collection" and ?ek = "JSON_stringify id0"
  show ?thesis
  proof (cases "name event")
    case Add
    then obtain s where "addEntryIfAbsent st ?ck ?ek (ContentEntryMetadata s) = Inr (st', r)"
      using assms(2) ids by (auto simp: handleContentEntry_def split: sum.splits)
    then show ?thesis using assms(1) by (rule quoted_keys_addEntryIfAbsent [rotated])
  next
    case Unlink
    then have "unlinkEntry st ?ck ?ek = Inr (st', r)"
      using assms(2) ids by (simp add: handleContentEntry_def)
    then show ?thesis using assms(1) by (rule quoted_keys_unlinkEntry [rotated])
  next
    case Change
    then have "collectionTypes st' = collectionTypes st
        \<or> (\<exists>s. setEntry (collectionTypes st) ?ck ?ek (ContentEntryMetadata s)
                   = Inr (collectionTypes st'))"
      using assms(2) ids
      by (auto simp: handleContentEntry_def reply_def Let_def
          split: sum.splits option.splits EntryMetadata.splits if_splits)
    then show ?thesis
      using assms(1) quoted_keys_setEntry [OF assms(1)] by auto
  next
    case AddDir
    then show ?thesis using assms(2) ids by (simp add: handleContentEntry_def fallOffEnd_def)
  next
    case UnlinkDir
    then show ?thesis using assms(2) ids by (simp add: handleContentEntry_def fallOffEnd_def)
  qed
qed

lemma quoted_keys_handleDataEntry:
  assumes "quoted_keys (collectionTypes st)"
      and "handleDataEntry w st event collection = Inr (st', r)"
  shows "quoted_keys (collectionTypes st')"
proof -
  let ?ck = "JSON_stringify collection"
  let ?ek = "JSON_stringify (getDataEntryId w (entry event) collection)"
  show ?thesis
  proof (cases "name event")
    case Add
    then have "addEntryIfAbsent st ?ck ?ek DataEntryMetadata = Inr (st', r)"
      using assms(2) by (simp add: handleDataEntry_def)
    then show ?thesis using assms(1) by (rule quoted_keys_addEntryIfAbsent [rotated])
  next
    case Unlink
    then have "unlinkEntry st ?ck ?ek = Inr (st', r)"
      using assms(2) by (simp add: handleDataEntry_def)
    then show ?thesis using assms(1) by (rule quoted_keys_unlinkEntry [rotated])
  next
    case Change
    then show ?thesis using assms by (simp add: handleDataEntry_def reply_def)
  next
    case AddDir
    then have "handleContentEntry w st event collection = Inr (st', r)"
      using assms(2) by (simp add: handleDataEntry_def)
    then show ?thesis using assms(1) by (rule quoted_keys_handleContentEntry [rotated])
  next
    case UnlinkDir
    then have "handleContentEntry w st event collection = Inr (st', r)"
      using assms(2) by (simp add: handleDataEntry_def)
    then show ?thesis using assms(1) by (rule quoted_keys_handleContentEntry [rotated])
  qed
qed

lemma quoted_keys_handleEvent:
  assumes "quoted_keys (collectionTypes st)" and "handleEvent w st event opts0 = Inr (st', r)"
  shows "quoted_keys (collectionTypes st')"
proof (cases "name event = AddDir \<or> name event = UnlinkDir")
  case True
  let ?ck = "JSON_stringify (relativeToContentDir w (entry event))"
  have "collectionTypes st' = collectionTypes st
        \<or> collectionTypes st' = addCollection (collectionTypes st) ?ck
        \<or> collectionTypes st' = removeCollection (collectionTypes st) ?ck"
    using True assms(2)
    by (auto simp: handleEvent_def reply_def Let_def emit_def split: if_splits)
  then show ?thesis
    using assms(1) quoted_keys_addCollection quoted_keys_removeCollection by auto
next
  case False
  have "collectionTypes st' = collectionTypes st
        \<or> (\<exists>c. handleDataEntry w st event c = Inr (st', r))
        \<or> (\<exists>c. handleContentEntry w st event c = Inr (st', r))"
    using False assms(2)
    by (auto simp: handleEvent_def handleConfig_def observer_set_def reply_def Let_def emit_def
        split: if_splits option.splits prod.splits sum.splits)
  then show ?thesis
    using assms(1) quoted_keys_handleDataEntry [OF assms(1)]
      quoted_keys_handleContentEntry [OF assms(1)] by auto
qed

lemma quoted_keys_handleEvents:
  "quoted_keys (collectionTypes st) \<Longrightarrow> handleEvents w st evs = (st', res) \<Longrightarrow>
   quoted_keys (collectionTypes st')"
proof (induction evs arbitrary: st st' res)
  case Nil
  then show ?case by simp
next
  case (Cons ev evs)
  show ?case
  proof (cases "handleEvent w st (type ev) (opts ev)")
    case (Inl e)
    then show ?thesis using Cons.prems by simp
  next
    case (Inr p)
    obtain st1 r where p: "p = (st1, r)" by (cases p)
    obtain st2 res2 where rest: "handleEvents w st1 evs = (st2, res2)"
      by (cases "handleEvents w st1 evs")
    have "st' = st2"
      using Cons.prems(2) Inr p rest by (auto split: sum.splits)
    moreover have "quoted_keys (collectionTypes st1)"
      using quoted_keys_handleEvent [OF Cons.prems(1)] Inr p by simp
    ultimately show ?thesis
      using Cons.IH rest by simp
  qed
qed

lemma entriesStr_returns:
  assumes "sane_JSON w" and "\<forall>ek \<in> set ks. ek \<in> range JSON_stringify \<and> map_of es ek \<noteq> None"
  shows "\<exists>t. entriesStr w ck cc es ks = Inr t"
  using assms(2)
proof (induction ks)
  case Nil
  then show ?case by simp
next
  case (Cons ek ks)
  then obtain md i where md: "map_of es ek = Some md" and i: "ek = JSON_stringify i"
    by auto
  have "\<exists>s. entryStr w ck cc ek md = Inr s"
    using assms(1) i by (cases md) (simp_all add: entryStr_def sane_JSON_def Let_def)
  moreover have "\<exists>t. entriesStr w ck cc es ks = Inr t"
    using Cons by simp
  ultimately show ?case
    using md by auto
qed

lemma collectionStr_returns:
  assumes "sane_JSON w" and "quoted_keys m" and "ck \<in> set (Object_keys m)"
  shows "\<exists>t. collectionStr w cfg m ck = Inr t"
proof -
  have "map_of m ck \<noteq> None"
    using assms(3) by (simp add: Object_keys_def map_of_eq_None_iff)
  then obtain es where es: "map_of m ck = Some es" by blast
  obtain c where c: "ck = JSON_stringify c"
    using quoted_keys_lookup(1) [OF assms(2) es] by auto
  have "\<forall>ek \<in> set (sort (Object_keys es)). ek \<in> range JSON_stringify \<and> map_of es ek \<noteq> None"
    using quoted_keys_lookup(2) [OF assms(2) es]
    by (auto simp: quoted_entries_def Object_keys_def map_of_eq_None_iff)
  from entriesStr_returns [OF assms(1) this]
  have body: "\<exists>t. entriesStr w ck cc es (sort (Object_keys es)) = Inr t" for cc
    by blast
  show ?thesis
  proof (cases cfg)
    case None
    from body [of None] show ?thesis
      using es None by (auto simp: collectionStr_def)
  next
    case (Some cf)
    have p: "JSON_parse w ck = Inr (JsString c)"
      using assms(1) c by (simp add: sane_JSON_def)
    from body [of "map_of (collections cf) (property_key (JsString c))"] show ?thesis
      using es Some p by (auto simp: collectionStr_def)
  qed
qed

lemma contentTypesStr_returns:
  assumes "sane_JSON w" and "quoted_keys m"
  shows "\<exists>t. contentTypesStr w cfg m = Inr t"
proof -
  have "\<forall>ck \<in> set ks. ck \<in> set (Object_keys m) \<Longrightarrow> \<exists>t. collectionsStr w cfg m ks = Inr t" for ks
  proof (induction ks)
    case Nil
    then show ?case by simp
  next
    case (Cons ck ks)
    then obtain s t where "collectionStr w cfg m ck = Inr s" "collectionsStr w cfg m ks = Inr t"
      using collectionStr_returns [OF assms, of ck cfg] by auto
    then show ?case by simp
  qed
  then show ?thesis
    by (simp add: contentTypesStr_def)
qed

end
